theory Spec2Isabelle
  imports Complex_Main "HOL-Library.Sublist" "HOL-Library.Multiset"
begin

section \<open>The markdown archive of src/unnamed/part_003\<close>

text \<open>
  A JavaScript string is a sequence of UTF-16 code units, modelled as a list of natural
  numbers; \<open>asc\<close> gives the code units of an ASCII literal. The regular expressions of
  the parser have no \<open>u\<close> or \<open>s\<close> flag: \<open>.\<close> is any code unit but a line terminator
  (LF, CR, U+2028, U+2029), \<open>\\d\<close> is an ASCII digit, and with the flag \<open>m\<close> the
  anchors \<open>^\<close> and \<open>$\<close> also match after and before a line terminator.
  A number is taken without the rounding of floating point: \<open>focusMinutes\<close> is a
  non-negative finite number, whole or with digits after the point, and is printed as
  \<open>Number.prototype.toString\<close> prints it; \<open>parseInt\<close> gives a natural number.
\<close>

type_synonym ustring = "nat list"

definition asc :: "string \<Rightarrow> ustring" where
  "asc s = map of_char s"

definition lineTerminator :: "nat \<Rightarrow> bool" where
  "lineTerminator c = (c = 10 \<or> c = 13 \<or> c = 8232 \<or> c = 8233)"

definition digit :: "nat \<Rightarrow> bool" where
  "digit c = (48 \<le> c \<and> c \<le> 57)"

text \<open>The Chinese words of the format: "tasks", "focus time", "minutes", "uncategorised".\<close>

definition RENWU :: ustring where "RENWU = [20219, 21153]"
definition ZHUANZHU_SHIJIAN :: ustring where "ZHUANZHU_SHIJIAN = [19987, 27880, 26102, 38388]"
definition FENZHONG :: ustring where "FENZHONG = [20998, 38047]"
definition WEIFENLEI :: ustring where "WEIFENLEI = [26410, 20998, 31867]"

text \<open>The types of src/unnamed/part_004 (7-35); \<open>id\<close> and \<open>text\<close> carry a prefix or a prime,
as do the fields of the two result types that would clash.\<close>

record Column =
  column_id :: ustring
  title :: ustring

record Task =
  task_id :: ustring
  text' :: ustring
  completed :: bool
  createdAt :: int
  completedAt :: "int option"
  columnId :: ustring

text \<open>
  A non-negative finite number: \<open>Whole n\<close> is the integer \<open>n\<close>; \<open>Fraction w fs\<close> is the
  number with the whole part \<open>w\<close> and the digits \<open>fs\<close> (each from 0 to 9, the last not 0)
  after the point. \<open>positive\<close> is the test \<open>focusMinutes > 0\<close>.
\<close>

datatype JSNumber = Whole nat | Fraction nat "nat list"

definition positive :: "JSNumber \<Rightarrow> bool" where
  "positive x =
     (case x of Whole n \<Rightarrow> n > 0 | Fraction w fs \<Rightarrow> w > 0 \<or> list_ex (\<lambda>d. d \<noteq> 0) fs)"

text \<open>
  A number in a template literal: \<open>Number.prototype.toString\<close> of ECMAScript. With the
  shortest digits \<open>s\<close> of the number, \<open>k\<close> of them, and \<open>n\<close> the position of the point
  after the first digit of \<open>s\<close>: the digits and \<open>n - k\<close> zeros when \<open>k \<le> n \<le> 21\<close>; the
  digits with a point after the first \<open>n\<close> when \<open>0 < n \<le> 21\<close>; \<open>0.\<close>, \<open>-n\<close> zeros and the
  digits when \<open>-6 < n \<le> 0\<close>; and otherwise the exponent notation, \<open>d.ddde+x\<close> or
  \<open>d.ddde-x\<close> with \<open>x = |n - 1|\<close>. \<open>decimal\<close> gives the digits of a natural number.
\<close>

fun decimal :: "nat \<Rightarrow> ustring" where
  "decimal n = (if n < 10 then [48 + n] else decimal (n div 10) @ [48 + n mod 10])"

definition stripZeros :: "ustring \<Rightarrow> ustring" where
  "stripZeros ds = rev (dropWhile (\<lambda>c. c = 48) (rev ds))"

definition exponential :: "ustring \<Rightarrow> nat \<Rightarrow> nat \<Rightarrow> ustring" where
  "exponential s sign x =
     (case s of
        [] \<Rightarrow> []
      | c # cs \<Rightarrow> (if cs = [] then [c] else c # 46 # cs) @ [101, sign] @ decimal x)"

definition numberToString :: "JSNumber \<Rightarrow> ustring" where
  "numberToString x =
     (case x of
        Whole w \<Rightarrow>
          (let ds = decimal w; n = length ds
           in if n \<le> 21 then ds else exponential (stripZeros ds) 43 (n - 1))
      | Fraction w fs \<Rightarrow>
          (let fd = map (\<lambda>d. 48 + d) fs in
           if w > 0
           then (let ds = decimal w; n = length ds
                 in if n \<le> 21 then ds @ 46 # fd else exponential (ds @ fd) 43 (n - 1))
           else (let z = length (takeWhile (\<lambda>d. d = 0) fs)
                 in if z < 6 then 48 # 46 # fd else exponential (drop z fd) 45 (z + 1))))"

text \<open>\<open>Array.prototype.join(newline)\<close>.\<close>

fun joinLines :: "ustring list \<Rightarrow> ustring" where
  "joinLines [] = []"
| "joinLines [l] = l"
| "joinLines (l # ls) = l @ 10 # joinLines ls"

text \<open>\<open>generateDayMarkdown\<close>, part_003 7-39: the lines pushed, then joined.\<close>

definition taskLine :: "Task \<Rightarrow> ustring" where
  "taskLine task =
     (let checkbox = (if completed task then asc ''[x]'' else asc ''[ ]'')
      in asc ''- '' @ checkbox @ asc '' '' @ text' task)"

definition columnLines :: "Task list \<Rightarrow> Column \<Rightarrow> ustring list" where
  "columnLines tasks column =
     (let columnTasks = filter (\<lambda>t. columnId t = column_id column) tasks
      in if length columnTasks = 0 then []
         else (asc ''### '' @ title column) # map taskLine columnTasks @ [[]])"

definition generateDayLines ::
    "ustring \<Rightarrow> Task list \<Rightarrow> Column list \<Rightarrow> JSNumber \<Rightarrow> ustring list" where
  "generateDayLines date tasks columns focusMinutes =
     [asc ''## '' @ date @ asc '' '' @ RENWU, []]
     @ concat (map (columnLines tasks) columns)
     @ (if positive focusMinutes
        then [asc ''> '' @ ZHUANZHU_SHIJIAN @ asc '': '' @ numberToString focusMinutes
                @ asc '' '' @ FENZHONG, []]
        else [])"

definition generateDayMarkdown ::
    "ustring \<Rightarrow> Task list \<Rightarrow> Column list \<Rightarrow> JSNumber \<Rightarrow> ustring" where
  "generateDayMarkdown date tasks columns focusMinutes =
     joinLines (generateDayLines date tasks columns focusMinutes)"

record HistoricalTask =
  hist_id :: ustring
  hist_text :: ustring
  hist_completed :: bool
  columnTitle :: ustring
  hist_completedAt :: "int option"

record DailySnapshot =
  snapshot_date :: ustring
  tasks :: "HistoricalTask list"
  focusMinutes :: nat

text \<open>
  \<open>content.split(/^## (\\d{4}-\\d{2}-\\d{2}) \<dots>$/gm)\<close>, part_003 72-73. \<open>matchDayHeader\<close> matches the
  expression at the head of the rest of the content (16 code units, then the end or a
  line terminator) and gives the captured date. \<open>splitDay\<close> walks the content as
  \<open>String.prototype.split\<close> does: \<open>atLineStart\<close> says whether \<open>^\<close> holds here, \<open>piece\<close>
  is the text since the last match; a match ends the piece and adds the capture.
\<close>

definition isDate :: "ustring \<Rightarrow> bool" where
  "isDate d =
     (length d = 10 \<and> list_all digit (take 4 d) \<and> d ! 4 = 45
      \<and> list_all digit (take 2 (drop 5 d)) \<and> d ! 7 = 45 \<and> list_all digit (drop 8 d))"

definition matchDayHeader :: "ustring \<Rightarrow> ustring option" where
  "matchDayHeader s =
     (if take 3 s = asc ''## '' \<and> isDate (take 10 (drop 3 s))
         \<and> take 3 (drop 13 s) = asc '' '' @ RENWU
         \<and> (case drop 16 s of [] \<Rightarrow> True | c # _ \<Rightarrow> lineTerminator c)
      then Some (take 10 (drop 3 s)) else None)"

function splitDay :: "bool \<Rightarrow> ustring \<Rightarrow> ustring \<Rightarrow> ustring list" where
  "splitDay atLineStart piece s =
     (case s of
        [] \<Rightarrow> [piece]
      | c # s' \<Rightarrow>
          (case (if atLineStart then matchDayHeader s else None) of
             Some d \<Rightarrow> piece # d # splitDay False [] (drop 16 s)
           | None \<Rightarrow> splitDay (lineTerminator c) (piece @ [c]) s'))"
  by pat_completeness auto
termination
  by (relation "measure (\<lambda>(b, piece, s). length s)") auto

text \<open>\<open>sectionContent.split(newline)\<close>, part_003 86.\<close>

fun splitLines :: "ustring \<Rightarrow> ustring list" where
  "splitLines [] = [[]]"
| "splitLines (c # s) =
     (if c = 10 then [] # splitLines s
      else (case splitLines s of l # ls \<Rightarrow> (c # l) # ls | [] \<Rightarrow> [[c]]))"

text \<open>
  The three expressions matched against a line, part_003 89, 96 and 107, with their
  captures, and \<open>parseInt(digits, 10)\<close>.
\<close>

definition matchColumn :: "ustring \<Rightarrow> ustring option" where
  "matchColumn line =
     (if take 4 line = asc ''### '' \<and> drop 4 line \<noteq> []
         \<and> list_all (\<lambda>c. \<not> lineTerminator c) (drop 4 line)
      then Some (drop 4 line) else None)"

definition matchTask :: "ustring \<Rightarrow> (nat \<times> ustring) option" where
  "matchTask line =
     (if take 3 line = asc ''- ['' \<and> (line ! 3 = 32 \<or> line ! 3 = 120)
         \<and> take 2 (drop 4 line) = asc ''] '' \<and> drop 6 line \<noteq> []
         \<and> list_all (\<lambda>c. \<not> lineTerminator c) (drop 6 line)
      then Some (line ! 3, drop 6 line) else None)"

definition matchFocus :: "ustring \<Rightarrow> ustring option" where
  "matchFocus line =
     (let rest = drop 8 line in
      if take 8 line = asc ''> '' @ ZHUANZHU_SHIJIAN @ asc '': ''
         \<and> takeWhile digit rest \<noteq> []
         \<and> dropWhile digit rest = asc '' '' @ FENZHONG
      then Some (takeWhile digit rest) else None)"

definition parseInt :: "ustring \<Rightarrow> nat" where
  "parseInt ds = foldl (\<lambda>acc d. acc * 10 + (d - 48)) 0 ds"

text \<open>
  The body of the loop over the lines, part_003 87-111, on the variables \<open>tasks\<close>,
  \<open>focusMinutes\<close> and \<open>columnTitle\<close>. The id of an imported task is built from the clock
  and \<open>Math.random()\<close>; \<open>newId k\<close> stands for the id given to the \<open>k\<close>-th task of a
  section.
\<close>

record SectionState =
  st_tasks :: "HistoricalTask list"
  st_focusMinutes :: nat
  st_columnTitle :: ustring

definition parseLine :: "(nat \<Rightarrow> ustring) \<Rightarrow> SectionState \<Rightarrow> ustring \<Rightarrow> SectionState" where
  "parseLine newId st line =
     (case matchColumn line of
        Some t \<Rightarrow> st\<lparr>st_columnTitle := t\<rparr>
      | None \<Rightarrow>
          (let st1 = (case matchTask line of
                        Some (box, txt) \<Rightarrow>
                          st\<lparr>st_tasks := st_tasks st @
                             [\<lparr>hist_id = newId (length (st_tasks st)), hist_text = txt,
                               hist_completed = (box = 120),
                               columnTitle = st_columnTitle st, hist_completedAt = None\<rparr>]\<rparr>
                      | None \<Rightarrow> st)
           in case matchFocus line of
                Some ds \<Rightarrow> st1\<lparr>st_focusMinutes := parseInt ds\<rparr>
              | None \<Rightarrow> st1))"

definition parseSection :: "(nat \<Rightarrow> ustring) \<Rightarrow> ustring \<Rightarrow> ustring \<Rightarrow> DailySnapshot" where
  "parseSection newId dateStr sectionContent =
     (let st = foldl (parseLine newId)
                 \<lparr>st_tasks = [], st_focusMinutes = 0, st_columnTitle = WEIFENLEI\<rparr>
                 (splitLines sectionContent)
      in \<lparr>snapshot_date = dateStr, tasks = st_tasks st, focusMinutes = st_focusMinutes st\<rparr>)"

text \<open>The loop over the sections, part_003 76-118: \<open>sections[i + 1]\<close> or the empty string.\<close>

fun sectionsLoop :: "(nat \<Rightarrow> ustring) \<Rightarrow> ustring list \<Rightarrow> DailySnapshot list" where
  "sectionsLoop newId (dateStr # sectionContent # rest) =
     parseSection newId dateStr sectionContent # sectionsLoop newId rest"
| "sectionsLoop newId [dateStr] = [parseSection newId dateStr []]"
| "sectionsLoop newId [] = []"

definition parseMarkdownToSnapshots :: "(nat \<Rightarrow> ustring) \<Rightarrow> ustring \<Rightarrow> DailySnapshot list" where
  "parseMarkdownToSnapshots newId content = sectionsLoop newId (tl (splitDay True [] content))"

text \<open>
  What the round trip compares: the text and the flag of the parsed tasks; and lines
  without a line terminator.
\<close>

definition rendered :: "HistoricalTask list \<Rightarrow> (ustring \<times> bool) list" where
  "rendered hs = map (\<lambda>h. (hist_text h, hist_completed h)) hs"

definition singleLine :: "ustring \<Rightarrow> bool" where
  "singleLine s = list_all (\<lambda>c. \<not> lineTerminator c) s"

text \<open>A line that cannot start a day header, and the lines after the header line.\<close>

definition safeLine :: "ustring \<Rightarrow> bool" where
  "safeLine l = (singleLine l \<and> take 3 l \<noteq> asc ''## '')"

definition bodyLines :: "Task list \<Rightarrow> Column list \<Rightarrow> nat \<Rightarrow> ustring list" where
  "bodyLines ts cols n =
     [] # concat (map (columnLines ts) cols)
     @ (if n > 0
        then [asc ''> '' @ ZHUANZHU_SHIJIAN @ asc '': '' @ decimal n @ asc '' '' @ FENZHONG, []]
        else [])"

text \<open>Example inputs.\<close>

definition exampleDate :: ustring where
  "exampleDate = asc ''2024-05-01''"

definition exampleTask :: Task where
  "exampleTask =
     \<lparr>task_id = asc ''1714550000000'', text' = asc ''t'', completed = False,
      createdAt = 1714550000000, completedAt = None, columnId = asc ''todo''\<rparr>"

definition exampleColumn :: Column where
  "exampleColumn = \<lparr>column_id = asc ''todo'', title = asc ''A''\<rparr>"

definition otherColumn :: Column where
  "otherColumn = \<lparr>column_id = asc ''todo'', title = asc ''B''\<rparr>"

definition twoLineColumn :: Column where
  "twoLineColumn = \<lparr>column_id = asc ''todo'', title = asc ''A'' @ [10] @ asc ''- [x] ghost''\<rparr>"

section \<open>The timer of src/App.tsx\<close>

text \<open>
  The component \<open>App\<close> keeps its timer in React state (\<open>settings\<close>, \<open>mode\<close>,
  \<open>timeRemaining\<close>, \<open>isActive\<close>, \<open>showMicroBreakOverlay\<close>, \<open>logs\<close>) and in three
  refs (\<open>nextMicroBreakTimeRef\<close>, \<open>microBreakRemainingRef\<close>, \<open>workTimeSnapshotRef\<close>).
  The model is explicit state passing over one record holding both.

  The durations of the settings and the countdown are modelled as unbounded integers.
  The two bounds of the micro-break interval are real numbers, as the settings dialog
  stores whatever number is typed, and so are the two refs of the schedule computed from
  them; the rounding of floating point is left out.
  \<open>Date.now()\<close>, \<open>Math.random()\<close> and \<open>format(new Date(), 'yyyy-MM-dd')\<close> are read
  from an environment given with each event; \<open>Math.random()\<close> is a real number \<open>r\<close>
  with \<open>0 \<le> r < 1\<close>. A handler and the effects that follow it read the same
  environment: they run within the same millisecond, and every call of
  \<open>scheduleNextMicroBreak\<close> overwrites both refs of the schedule, so that only the last
  draw of an event shows in the state. State updates of one handler are batched: the
  next render sees them all.
\<close>

datatype TimerMode = WORK | SHORT_BREAK | MICRO_BREAK

text \<open>
  The fields of \<open>Settings\<close> that the timer reads. \<open>objectId\<close> stands for the identity of the
  settings object: React compares the dependencies of an effect with \<open>Object.is\<close>, so a
  saved copy is a new object even when it differs from the old one only in a field left
  out here (volumes, colours, dark mode, paths) or in none.
\<close>

record Settings =
  workDuration :: int
  breakDuration :: int
  microBreakDuration :: int
  microBreakMinInterval :: real
  microBreakMaxInterval :: real
  enableMicroBreaks :: bool
  autoStartBreak :: bool
  autoStartWork :: bool
  objectId :: nat

record DailyLog =
  date :: string
  secondsWorked :: int
  tasksCompleted :: "int option"

record App =
  settings :: Settings
  mode :: TimerMode
  timeRemaining :: int
  isActive :: bool
  showMicroBreakOverlay :: bool
  logs :: "DailyLog list"
  nextMicroBreakTimeRef :: "real option"
  microBreakRemainingRef :: "real option"
  workTimeSnapshotRef :: "int option"

record Env =
  now :: int
  rnd :: real
  today :: string

text \<open>\<open>if (ref.current)\<close> on a \<open>number | null\<close>: null and 0 are falsy.\<close>

definition truthy :: "real option \<Rightarrow> bool" where
  "truthy r = (case r of None \<Rightarrow> False | Some v \<Rightarrow> v \<noteq> 0)"

text \<open>
  \<open>getDurationForMode\<close>, App.tsx 405-412; the closure's \<open>settings\<close> is the first argument.
  The \<open>default\<close> branch of the switch is not reached by any of the three modes.
\<close>

fun getDurationForMode :: "Settings \<Rightarrow> TimerMode \<Rightarrow> int" where
  "getDurationForMode st WORK = workDuration st * 60"
| "getDurationForMode st SHORT_BREAK = breakDuration st * 60"
| "getDurationForMode st MICRO_BREAK = microBreakDuration st"

text \<open>The bounds and the number of seconds drawn, App.tsx 420-424.\<close>

definition safeMin :: "Settings \<Rightarrow> real" where
  "safeMin st = min (microBreakMinInterval st * 60) (microBreakMaxInterval st * 60)"

definition safeMax :: "Settings \<Rightarrow> real" where
  "safeMax st = max (microBreakMinInterval st * 60) (microBreakMaxInterval st * 60)"

definition randomSeconds :: "Env \<Rightarrow> Settings \<Rightarrow> real" where
  "randomSeconds env st =
     of_int \<lfloor>rnd env * (safeMax st - safeMin st + 1)\<rfloor> + safeMin st"

text \<open>\<open>scheduleNextMicroBreak\<close>, App.tsx 414-427; \<open>r\<close> is the render whose closure runs.\<close>

definition scheduleNextMicroBreak :: "Env \<Rightarrow> App \<Rightarrow> App \<Rightarrow> App" where
  "scheduleNextMicroBreak env r s =
     (if \<not> enableMicroBreaks (settings r)
      then s\<lparr>nextMicroBreakTimeRef := None, microBreakRemainingRef := None\<rparr>
      else let remaining = randomSeconds env (settings r) * 1000
           in s\<lparr>microBreakRemainingRef := Some remaining,
                nextMicroBreakTimeRef := Some (of_int (now env) + remaining)\<rparr>)"

text \<open>
  \<open>switchMode\<close>, App.tsx 438-475. \<open>mode\<close>, \<open>timeRemaining\<close> and \<open>settings\<close> are the
  values closed over at the render \<open>r\<close>; the refs are read from the running state \<open>s\<close>,
  on which the queued state updates are applied in order.
\<close>

definition switchMode :: "Env \<Rightarrow> App \<Rightarrow> TimerMode \<Rightarrow> bool \<Rightarrow> App \<Rightarrow> App" where
  "switchMode env r newMode manualTrigger s =
     (let s1 = (if mode r = WORK \<and> newMode = MICRO_BREAK
                then s\<lparr>workTimeSnapshotRef := Some (timeRemaining r)\<rparr> else s);
          returningFromMicroBreak = (mode r = MICRO_BREAK \<and> newMode = WORK);
          s2 = s1\<lparr>mode := newMode\<rparr>;
          s3 = (case workTimeSnapshotRef s2 of
                  Some snap \<Rightarrow>
                    if returningFromMicroBreak
                    then s2\<lparr>timeRemaining := snap, workTimeSnapshotRef := None\<rparr>
                    else s2\<lparr>timeRemaining := getDurationForMode (settings r) newMode\<rparr>
                | None \<Rightarrow> s2\<lparr>timeRemaining := getDurationForMode (settings r) newMode\<rparr>)
      in case newMode of
           WORK \<Rightarrow>
             (let s4 = scheduleNextMicroBreak env r s3
              in if returningFromMicroBreak then s4\<lparr>isActive := True\<rparr>
                 else if autoStartWork (settings r) \<and> \<not> manualTrigger
                      then s4\<lparr>isActive := True\<rparr> else s4\<lparr>isActive := False\<rparr>)
         | SHORT_BREAK \<Rightarrow>
             (if autoStartBreak (settings r) \<and> \<not> manualTrigger
              then s3\<lparr>isActive := True\<rparr> else s3\<lparr>isActive := False\<rparr>)
         | MICRO_BREAK \<Rightarrow> s3\<lparr>showMicroBreakOverlay := True, isActive := True\<rparr>)"

text \<open>\<open>recordWorkTime\<close>, App.tsx 498-510, with \<open>Array.prototype.findIndex\<close>.\<close>

fun findIndex :: "('a \<Rightarrow> bool) \<Rightarrow> 'a list \<Rightarrow> nat option" where
  "findIndex p [] = None"
| "findIndex p (x # xs) =
     (if p x then Some 0 else map_option Suc (findIndex p xs))"

definition recordWorkTime :: "Env \<Rightarrow> int \<Rightarrow> App \<Rightarrow> App" where
  "recordWorkTime env seconds s =
     (let prev = logs s in
      case findIndex (\<lambda>l. date l = today env) prev of
        Some existingIndex \<Rightarrow>
          s\<lparr>logs := prev[existingIndex :=
                 (prev ! existingIndex)\<lparr>secondsWorked :=
                     secondsWorked (prev ! existingIndex) + seconds\<rparr>]\<rparr>
      | None \<Rightarrow>
          s\<lparr>logs := prev @ [\<lparr>date = today env, secondsWorked = seconds,
                               tasksCompleted = None\<rparr>]\<rparr>)"

text \<open>The test of App.tsx 518-519: micro-breaks are on, a deadline is set and has passed.\<close>

definition microBreakDue :: "Env \<Rightarrow> App \<Rightarrow> bool" where
  "microBreakDue env r =
     (mode r = WORK \<and> enableMicroBreaks (settings r) \<and> truthy (nextMicroBreakTimeRef r)
      \<and> (case nextMicroBreakTimeRef r of
             Some deadline \<Rightarrow> of_int (now env) \<ge> deadline
           | None \<Rightarrow> False))"

text \<open>
  The callback of \<open>setInterval\<close>, App.tsx 515-530. The interval exists exactly when the
  last render had \<open>isActive && timeRemaining > 0\<close> (App.tsx 514, cleared at 547-549), so
  in any other state no callback runs. \<open>switchMode\<close> reads \<open>timeRemaining\<close> of the
  render \<open>r\<close>, not the decrement queued just before it.
\<close>

definition tick :: "Env \<Rightarrow> App \<Rightarrow> App" where
  "tick env r =
     (if isActive r \<and> timeRemaining r > 0 then
        (let s1 = r\<lparr>timeRemaining := timeRemaining r - 1\<rparr>;
             s2 = (if microBreakDue env r
                   then switchMode env r MICRO_BREAK False
                          (s1\<lparr>nextMicroBreakTimeRef := None, microBreakRemainingRef := None\<rparr>)
                   else s1)
         in if mode r = WORK then recordWorkTime env 1 s2 else s2)
      else r)"

text \<open>\<open>toggleTimer\<close>, App.tsx 553-569.\<close>

definition toggleTimer :: "Env \<Rightarrow> App \<Rightarrow> App" where
  "toggleTimer env r =
     (let s1 =
        (if \<not> isActive r then
           (if mode r = WORK \<and> truthy (microBreakRemainingRef r)
            then r\<lparr>nextMicroBreakTimeRef :=
                     map_option (\<lambda>remaining. of_int (now env) + remaining) (microBreakRemainingRef r)\<rparr>
            else if mode r = WORK \<and> \<not> truthy (nextMicroBreakTimeRef r)
                 then scheduleNextMicroBreak env r r
                 else r)
         else
           (if mode r = WORK \<and> truthy (nextMicroBreakTimeRef r)
            then r\<lparr>microBreakRemainingRef :=
                     map_option (\<lambda>deadline. max 0 (deadline - of_int (now env)))
                       (nextMicroBreakTimeRef r),
                   nextMicroBreakTimeRef := None\<rparr>
            else r))
      in s1\<lparr>isActive := \<not> isActive r\<rparr>)"

text \<open>\<open>resetTimer\<close>, App.tsx 571-580.\<close>

definition resetTimer :: "App \<Rightarrow> App" where
  "resetTimer r =
     r\<lparr>isActive := False, mode := WORK, timeRemaining := workDuration (settings r) * 60,
       workTimeSnapshotRef := None, nextMicroBreakTimeRef := None,
       microBreakRemainingRef := None, showMicroBreakOverlay := False\<rparr>"

text \<open>\<open>skipMicroBreak\<close>, App.tsx 582-586.\<close>

definition skipMicroBreak :: "Env \<Rightarrow> App \<Rightarrow> App" where
  "skipMicroBreak env r = switchMode env r WORK False (r\<lparr>showMicroBreakOverlay := False\<rparr>)"

text \<open>The \<open>onSave\<close> handler of the settings dialog, App.tsx 851-863.\<close>

definition onSave :: "Settings \<Rightarrow> App \<Rightarrow> App" where
  "onSave newSettings r =
     (let oldWork = workDuration (settings r);
          oldBreak = breakDuration (settings r);
          s1 = r\<lparr>settings := newSettings\<rparr>
      in if mode r = WORK \<and> oldWork \<noteq> workDuration newSettings
         then s1\<lparr>timeRemaining := workDuration newSettings * 60, isActive := False\<rparr>
         else if mode r = SHORT_BREAK \<and> oldBreak \<noteq> breakDuration newSettings
              then s1\<lparr>timeRemaining := breakDuration newSettings * 60, isActive := False\<rparr>
              else s1)"

subsection \<open>Effects\<close>

text \<open>
  After a handler has run, React renders the new state and runs the effects whose
  dependencies changed since the previous render, in the order of their declaration:
  the micro-break effect (App.tsx 429-436), then the tick effect (App.tsx 513-550).
  The callbacks \<open>scheduleNextMicroBreak\<close> and \<open>switchMode\<close> change with \<open>settings\<close>
  (and \<open>switchMode\<close> with \<open>mode\<close> and \<open>timeRemaining\<close>), so the dependency lists reduce
  to the state values below, the settings compared together with their \<open>objectId\<close>. The
  audio callbacks also change with the sound files, which the model leaves out, as it
  does the audio effects (477-496): they do not touch the timer.
\<close>

definition microBreakDeps :: "App \<Rightarrow> App \<Rightarrow> bool" where
  "microBreakDeps prev cur =
     (mode prev \<noteq> mode cur \<or> isActive prev \<noteq> isActive cur \<or> settings prev \<noteq> settings cur)"

definition microBreakEffect :: "Env \<Rightarrow> App \<Rightarrow> App \<Rightarrow> App" where
  "microBreakEffect env r s =
     (if mode r = WORK \<and> isActive r \<and> enableMicroBreaks (settings r)
      then scheduleNextMicroBreak env r s
      else if \<not> enableMicroBreaks (settings r)
           then s\<lparr>nextMicroBreakTimeRef := None, microBreakRemainingRef := None\<rparr>
           else s)"

definition tickDeps :: "App \<Rightarrow> App \<Rightarrow> bool" where
  "tickDeps prev cur =
     (isActive prev \<noteq> isActive cur \<or> timeRemaining prev \<noteq> timeRemaining cur
      \<or> mode prev \<noteq> mode cur \<or> settings prev \<noteq> settings cur)"

text \<open>The branch \<open>timeRemaining === 0 && isActive\<close> of the tick effect, App.tsx 531-545.\<close>

definition countdownZero :: "Env \<Rightarrow> App \<Rightarrow> App \<Rightarrow> App" where
  "countdownZero env r s =
     (let s1 = s\<lparr>isActive := False\<rparr> in
      case mode r of
        WORK \<Rightarrow> switchMode env r SHORT_BREAK False s1
      | SHORT_BREAK \<Rightarrow> switchMode env r WORK False s1
      | MICRO_BREAK \<Rightarrow> switchMode env r WORK False (s1\<lparr>showMicroBreakOverlay := False\<rparr>))"

text \<open>
  Rendering until no effect changes the state any more. With both durations 0 and both
  auto-starts on, the effects can re-trigger each other without end; a rendering that
  does not end has the value \<open>None\<close>.
\<close>

partial_function (option) settle :: "Env \<Rightarrow> App \<Rightarrow> App \<Rightarrow> App option" where
  "settle env prev cur =
     (let s1 = (if microBreakDeps prev cur then microBreakEffect env cur cur else cur)
      in if tickDeps prev cur \<and> timeRemaining cur = 0 \<and> isActive cur
         then settle env cur (countdownZero env cur s1)
         else Some s1)"

datatype Event = Tick | ToggleTimer | ResetTimer | SkipMicroBreak | SaveSettings Settings

fun handle :: "Env \<Rightarrow> Event \<Rightarrow> App \<Rightarrow> App" where
  "handle env Tick r = tick env r"
| "handle env ToggleTimer r = toggleTimer env r"
| "handle env ResetTimer r = resetTimer r"
| "handle env SkipMicroBreak r = skipMicroBreak env r"
| "handle env (SaveSettings newSettings) r = onSave newSettings r"

definition step :: "Env \<Rightarrow> Event \<Rightarrow> App \<Rightarrow> App option" where
  "step env ev r = settle env r (handle env ev r)"

fun run :: "(Env \<times> Event) list \<Rightarrow> App \<Rightarrow> App option" where
  "run [] s = Some s"
| "run ((env, ev) # rest) s =
     (case step env ev s of None \<Rightarrow> None | Some s' \<Rightarrow> run rest s')"

text \<open>The state of the first render, App.tsx 102-105 and 120-122.\<close>

definition initialApp :: "Settings \<Rightarrow> DailyLog list \<Rightarrow> App" where
  "initialApp st savedLogs =
     \<lparr>settings = st, mode = WORK, timeRemaining = workDuration st * 60, isActive = False,
      showMicroBreakOverlay = False, logs = savedLogs, nextMicroBreakTimeRef = None,
      microBreakRemainingRef = None, workTimeSnapshotRef = None\<rparr>"

subsection \<open>Observations and example inputs\<close>

text \<open>
  The seconds logged for a day, read as App.tsx 162-163 reads them
  (\<open>logs.find(l => l.date === today)\<close>, and 0 when there is no record).
\<close>

definition secondsWorkedOn :: "string \<Rightarrow> DailyLog list \<Rightarrow> int" where
  "secondsWorkedOn d ls =
     (case find (\<lambda>l. date l = d) ls of None \<Rightarrow> 0 | Some l \<Rightarrow> secondsWorked l)"

definition ticks :: "Env list \<Rightarrow> (Env \<times> Event) list" where
  "ticks envs = map (\<lambda>env. (env, Tick)) envs"

text \<open>\<open>DEFAULT_SETTINGS\<close> of the type declarations (src/unnamed/part_004, 75-102).\<close>

definition DEFAULT_SETTINGS :: Settings where
  "DEFAULT_SETTINGS =
     \<lparr>workDuration = 30, breakDuration = 10, microBreakDuration = 10,
      microBreakMinInterval = 3, microBreakMaxInterval = 5, enableMicroBreaks = True,
      autoStartBreak = True, autoStartWork = False, objectId = 0\<rparr>"

definition envAt :: "int \<Rightarrow> real \<Rightarrow> Env" where
  "envAt t x = \<lparr>now = t, rnd = x, today = ''2024-05-01''\<rparr>"

definition swappedExample :: App where
  "swappedExample =
     initialApp (DEFAULT_SETTINGS\<lparr>microBreakMinInterval := 5, microBreakMaxInterval := 3\<rparr>) []"

definition fractionalExample :: App where
  "fractionalExample =
     initialApp (DEFAULT_SETTINGS\<lparr>microBreakMinInterval := 33/100,
                                    microBreakMaxInterval := 1\<rparr>) []"


definition workingExample :: App where
  "workingExample =
     \<lparr>settings = DEFAULT_SETTINGS, mode = WORK, timeRemaining = 1500, isActive = True,
      showMicroBreakOverlay = False, logs = [], nextMicroBreakTimeRef = Some 100000,
      microBreakRemainingRef = Some 180000, workTimeSnapshotRef = None\<rparr>"

definition lastSecondExample :: App where
  "lastSecondExample =
     \<lparr>settings = DEFAULT_SETTINGS, mode = WORK, timeRemaining = 1, isActive = True,
      showMicroBreakOverlay = False, logs = [], nextMicroBreakTimeRef = Some 100000,
      microBreakRemainingRef = Some 180000, workTimeSnapshotRef = None\<rparr>"

definition scheduledExample :: App where
  "scheduledExample =
     (initialApp DEFAULT_SETTINGS [])\<lparr>isActive := True, microBreakRemainingRef := Some 240000,
        nextMicroBreakTimeRef := Some 240000\<rparr>"

text \<open>The settings of the scenario of 60 ticks, and ticks one second apart.\<close>

definition scenarioSettings :: Settings where
  "scenarioSettings =
     \<lparr>workDuration = 25, breakDuration = 5, microBreakDuration = 10,
      microBreakMinInterval = 1, microBreakMaxInterval = 1, enableMicroBreaks = True,
      autoStartBreak = True, autoStartWork = False, objectId = 0\<rparr>"

definition secondsFrom :: "nat \<Rightarrow> nat \<Rightarrow> Env list" where
  "secondsFrom a b = map (\<lambda>k. envAt (1000 * int k) (1/2)) [a..<b]"

subsection \<open>Reachable states\<close>

text \<open>
  The states the timer can be in: the first render, for any stored settings and logs,
  and what any event of the timer makes of a reachable state.
\<close>

inductive reachable :: "App \<Rightarrow> bool" where
  reachable_init: "reachable (initialApp st savedLogs)"
| reachable_step: "reachable s \<Longrightarrow> step env ev s = Some s' \<Longrightarrow> reachable s'"

text \<open>Events that leave micro-breaks disabled: all but a save that enables them.\<close>

fun keepsDisabled :: "Event \<Rightarrow> bool" where
  "keepsDisabled (SaveSettings st) = (\<not> enableMicroBreaks st)"
| "keepsDisabled _ = True"

definition scheduleEmpty :: "App \<Rightarrow> bool" where
  "scheduleEmpty s = (nextMicroBreakTimeRef s = None \<and> microBreakRemainingRef s = None)"

definition scheduleInv :: "App \<Rightarrow> bool" where
  "scheduleInv s = (enableMicroBreaks (settings s) \<or> scheduleEmpty s)"

text \<open>
  Settings with which the effects never come to rest: every countdown is over at once
  and starts the next one. An event is tame when it does not save such settings.
\<close>

definition loopingSettings :: "Settings \<Rightarrow> bool" where
  "loopingSettings st =
     (workDuration st = 0 \<and> autoStartWork st \<and> breakDuration st = 0 \<and> autoStartBreak st)"

fun tameEvent :: "Event \<Rightarrow> bool" where
  "tameEvent (SaveSettings st) = (\<not> loopingSettings st)"
| "tameEvent _ = True"

section \<open>Properties\<close>

subsection \<open>Rendering\<close>

lemma settle_quiet:
  "\<not> (tickDeps prev cur \<and> timeRemaining cur = 0 \<and> isActive cur) \<Longrightarrow>
   settle env prev cur =
     Some (if microBreakDeps prev cur then microBreakEffect env cur cur else cur)"
  by (subst settle.simps) (auto simp: Let_def)

lemma settle_zero:
  "tickDeps prev cur \<Longrightarrow> timeRemaining cur = 0 \<Longrightarrow> isActive cur \<Longrightarrow>
   settle env prev cur =
     settle env cur (countdownZero env cur
       (if microBreakDeps prev cur then microBreakEffect env cur cur else cur))"
  by (subst settle.simps) (simp add: Let_def)

subsection \<open>The duration of a mode\<close>

text \<open>
  C9. \<open>getDurationForMode\<close> is a function of the settings and the mode alone: it gives
  \<open>workDuration * 60\<close> for Work, \<open>breakDuration * 60\<close> for ShortBreak, and
  \<open>microBreakDuration\<close>, not multiplied, for MicroBreak.
\<close>

theorem getDurationForMode_spec:
  "getDurationForMode st m =
     (case m of WORK \<Rightarrow> workDuration st * 60
              | SHORT_BREAK \<Rightarrow> breakDuration st * 60
              | MICRO_BREAK \<Rightarrow> microBreakDuration st)"
  by (cases m) simp_all

subsection \<open>Scheduling the next micro-break\<close>

lemma safeMin_le_safeMax: "safeMin st \<le> safeMax st"
  by (simp add: safeMin_def safeMax_def min_def max_def)

lemma safeMin_minutes:
  "safeMin st = min (microBreakMinInterval st) (microBreakMaxInterval st) * 60"
  by (simp add: safeMin_def min_def)

lemma safeMax_minutes:
  "safeMax st = max (microBreakMinInterval st) (microBreakMaxInterval st) * 60"
  by (simp add: safeMax_def max_def)

lemma safe_whole:
  assumes "microBreakMinInterval st * 60 \<in> \<int>" "microBreakMaxInterval st * 60 \<in> \<int>"
  shows "safeMin st \<in> \<int>" "safeMax st \<in> \<int>"
  using assms by (simp_all add: safeMin_def safeMax_def min_def max_def)

lemma randomSeconds_range:
  assumes "0 \<le> rnd env" "rnd env < 1" "safeMin st \<in> \<int>" "safeMax st \<in> \<int>"
  shows "safeMin st \<le> randomSeconds env st" "randomSeconds env st \<le> safeMax st"
proof -
  obtain lo hi :: int where lo: "safeMin st = of_int lo" and hi: "safeMax st = of_int hi"
    using assms(3,4) by (auto elim!: Ints_cases)
  define n where "n = hi - lo + 1"
  have le: "lo \<le> hi" using safeMin_le_safeMax[of st] lo hi by simp
  then have n: "1 \<le> n" by (simp add: n_def)
  have nn: "safeMax st - safeMin st + 1 = of_int n" by (simp add: lo hi n_def)
  have "0 \<le> rnd env * of_int n" using assms(1) n by simp
  then have f0: "0 \<le> \<lfloor>rnd env * of_int n\<rfloor>" by simp
  have "rnd env * of_int n < of_int n" using assms(2) n by simp
  then have f1: "\<lfloor>rnd env * of_int n\<rfloor> < n" by (simp add: floor_less_iff)
  have rs: "randomSeconds env st = of_int (\<lfloor>rnd env * of_int n\<rfloor> + lo)"
    unfolding randomSeconds_def nn by (simp add: lo)
  show "safeMin st \<le> randomSeconds env st" unfolding rs lo using f0 by simp
  have "\<lfloor>rnd env * of_int n\<rfloor> + lo \<le> hi" using f1 by (simp add: n_def)
  then show "randomSeconds env st \<le> safeMax st" unfolding rs hi by (simp only: of_int_le_iff)
qed

lemma randomSeconds_whole: "safeMin st \<in> \<int> \<Longrightarrow> randomSeconds env st \<in> \<int>"
  by (simp add: randomSeconds_def)

text \<open>
  The draws that give the value \<open>k\<close> are those of one interval of length
  \<open>1 / (safeMax - safeMin + 1)\<close>, whatever \<open>k\<close> is.
\<close>

lemma randomSeconds_preimage:
  assumes "safeMin st \<in> \<int>"
  shows "randomSeconds env st = of_int k \<longleftrightarrow>
     (of_int k - safeMin st) / (safeMax st - safeMin st + 1) \<le> rnd env \<and>
     rnd env < (of_int k - safeMin st + 1) / (safeMax st - safeMin st + 1)"
proof -
  obtain lo :: int where lo: "safeMin st = of_int lo"
    using assms by (auto elim!: Ints_cases)
  define n where "n = safeMax st - safeMin st + 1"
  have n: "0 < n" using safeMin_le_safeMax[of st] by (simp add: n_def)
  have "randomSeconds env st = of_int k \<longleftrightarrow> of_int (\<lfloor>rnd env * n\<rfloor> + lo) = (of_int k :: real)"
    by (simp add: randomSeconds_def n_def lo)
  also have "\<dots> \<longleftrightarrow> \<lfloor>rnd env * n\<rfloor> = k - lo"
    by (subst of_int_eq_iff) auto
  also have "\<dots> \<longleftrightarrow> of_int (k - lo) \<le> rnd env * n \<and> rnd env * n < of_int (k - lo) + 1"
    by (rule floor_eq_iff)
  also have "\<dots> \<longleftrightarrow> of_int (k - lo) / n \<le> rnd env \<and> rnd env < (of_int (k - lo) + 1) / n"
    using n by (simp add: pos_divide_le_eq pos_less_divide_eq)
  finally show ?thesis by (simp add: n_def lo)
qed

lemma randomSeconds_tie:
  assumes "0 \<le> rnd env" "rnd env < 1" "microBreakMinInterval st = microBreakMaxInterval st"
  shows "randomSeconds env st = microBreakMinInterval st * 60"
proof -
  have "\<lfloor>rnd env\<rfloor> = 0" using assms(1,2) by (simp add: floor_eq_iff)
  then show ?thesis using assms(3) by (simp add: randomSeconds_def safeMin_def safeMax_def)
qed

text \<open>
  C6, as amended. With micro-breaks enabled and interval bounds that are whole numbers
  of seconds (\<open>minInterval * 60\<close> and \<open>maxInterval * 60\<close> are integers),
  \<open>scheduleNextMicroBreak\<close> draws a whole number of seconds between
  \<open>min(minInterval, maxInterval) * 60\<close> and \<open>max(minInterval, maxInterval) * 60\<close> (so bounds
  given in the wrong order are swapped), stores it times 1000 as the remaining
  milliseconds and sets the deadline to now plus that. Every value \<open>k\<close> is drawn exactly
  when \<open>Math.random()\<close> falls into an interval of the same length \<open>1 / (hi - lo + 1)\<close>, so
  a uniform \<open>Math.random()\<close> gives a uniform draw. With equal bounds the draw is that one
  value. With micro-breaks disabled both refs are emptied.
\<close>

theorem scheduleNextMicroBreak_spec:
  assumes "0 \<le> rnd env" and "rnd env < 1"
    and "microBreakMinInterval (settings r) * 60 \<in> \<int>"
    and "microBreakMaxInterval (settings r) * 60 \<in> \<int>"
  shows "(if enableMicroBreaks (settings r) then
            randomSeconds env (settings r) \<in> \<int>
          \<and> min (microBreakMinInterval (settings r)) (microBreakMaxInterval (settings r)) * 60
              \<le> randomSeconds env (settings r)
          \<and> randomSeconds env (settings r)
              \<le> max (microBreakMinInterval (settings r)) (microBreakMaxInterval (settings r)) * 60
          \<and> microBreakRemainingRef (scheduleNextMicroBreak env r s)
               = Some (randomSeconds env (settings r) * 1000)
          \<and> nextMicroBreakTimeRef (scheduleNextMicroBreak env r s)
               = Some (of_int (now env) + randomSeconds env (settings r) * 1000)
          \<and> (\<forall>k::int. randomSeconds env (settings r) = of_int k \<longleftrightarrow>
                 (of_int k - safeMin (settings r))
                   / (safeMax (settings r) - safeMin (settings r) + 1) \<le> rnd env
               \<and> rnd env < (of_int k - safeMin (settings r) + 1)
                   / (safeMax (settings r) - safeMin (settings r) + 1))
          \<and> (if microBreakMinInterval (settings r) = microBreakMaxInterval (settings r)
              then randomSeconds env (settings r) = microBreakMinInterval (settings r) * 60
              else True)
          else nextMicroBreakTimeRef (scheduleNextMicroBreak env r s) = None
             \<and> microBreakRemainingRef (scheduleNextMicroBreak env r s) = None)"
proof -
  note w = safe_whole[OF assms(3,4)]
  show ?thesis
    using randomSeconds_range[OF assms(1,2) w] randomSeconds_whole[OF w(1), of env]
      randomSeconds_tie[OF assms(1,2), of "settings r"]
      randomSeconds_preimage[OF w(1), of env]
    by (simp add: scheduleNextMicroBreak_def Let_def safeMin_minutes safeMax_minutes)
qed

theorem scheduleNextMicroBreak_witness:
  "0 \<le> rnd (envAt 7000 (1/2)) \<and> rnd (envAt 7000 (1/2)) < 1
   \<and> microBreakMinInterval (settings swappedExample) * 60 \<in> \<int>
   \<and> microBreakMaxInterval (settings swappedExample) * 60 \<in> \<int>
   \<and> microBreakRemainingRef
        (scheduleNextMicroBreak (envAt 7000 (1/2)) swappedExample swappedExample)
       = Some 240000
   \<and> nextMicroBreakTimeRef
        (scheduleNextMicroBreak (envAt 7000 (1/2)) swappedExample swappedExample)
       = Some 247000"
  using scheduleNextMicroBreak_spec[of "envAt 7000 (1/2)" swappedExample swappedExample]
  by (simp add: envAt_def initialApp_def DEFAULT_SETTINGS_def randomSeconds_def
        safeMin_def safeMax_def swappedExample_def)

text \<open>
  With the bounds 0.33 and 1 minute the seconds drawn for \<open>Math.random() = 0.999\<close> are
  \<open>floor(0.999 * 41.2) + 19.8 = 60.8\<close>: not a whole number, and above \<open>max * 60 = 60\<close>.
\<close>

theorem scheduleNextMicroBreak_counterexample:
  "0 \<le> rnd (envAt 7000 (999/1000)) \<and> rnd (envAt 7000 (999/1000)) < 1
   \<and> enableMicroBreaks (settings fractionalExample)
   \<and> microBreakMinInterval (settings fractionalExample) = 33/100
   \<and> microBreakMaxInterval (settings fractionalExample) = 1
   \<and> randomSeconds (envAt 7000 (999/1000)) (settings fractionalExample) = 304/5
   \<and> (304/5 :: real) \<notin> \<int>
   \<and> max (33/100) 1 * 60 < (304/5 :: real)
   \<and> microBreakRemainingRef
        (scheduleNextMicroBreak (envAt 7000 (999/1000)) fractionalExample fractionalExample)
       = Some 60800"
proof -
  have "frac (304/5 :: real) \<noteq> 0" by (simp add: frac_def)
  then have notWhole: "(304/5 :: real) \<notin> \<int>" by (simp add: frac_eq_0_iff)
  have rs: "randomSeconds (envAt 7000 (999/1000)) (settings fractionalExample) = 304/5"
    by (simp add: envAt_def initialApp_def DEFAULT_SETTINGS_def randomSeconds_def
        safeMin_def safeMax_def fractionalExample_def)
  have rem: "microBreakRemainingRef
        (scheduleNextMicroBreak (envAt 7000 (999/1000)) fractionalExample fractionalExample)
       = Some (randomSeconds (envAt 7000 (999/1000)) (settings fractionalExample) * 1000)"
    by (simp add: initialApp_def DEFAULT_SETTINGS_def scheduleNextMicroBreak_def
        fractionalExample_def Let_def)
  show ?thesis
    unfolding rem rs
    using notWhole
    by (simp add: envAt_def initialApp_def DEFAULT_SETTINGS_def fractionalExample_def)
qed

subsection \<open>Reset\<close>

text \<open>
  C8. From every state, \<open>resetTimer\<close> and the effects that follow it end in Work, paused,
  with \<open>timeRemaining = getDurationForMode Work\<close>; the work snapshot and both
  micro-break refs are empty and the overlay is hidden.
\<close>

theorem resetTimer_spec:
  "\<exists>s'. step env ResetTimer s = Some s' \<and> mode s' = WORK \<and> \<not> isActive s'
     \<and> timeRemaining s' = getDurationForMode (settings s) WORK
     \<and> settings s' = settings s
     \<and> workTimeSnapshotRef s' = None \<and> nextMicroBreakTimeRef s' = None
     \<and> microBreakRemainingRef s' = None \<and> \<not> showMicroBreakOverlay s'"
  by (simp add: step_def settle_quiet resetTimer_def microBreakEffect_def)

subsection \<open>Saving the settings\<close>




text \<open>
  Saving a new settings object re-runs the micro-break effect even when no value the
  timer reads has changed: in Work, running, with micro-breaks enabled, the schedule is
  drawn anew.
\<close>

lemma onSave_new_object_example:
  "step (envAt 70000 (1/2)) (SaveSettings (DEFAULT_SETTINGS\<lparr>objectId := 1\<rparr>)) workingExample
     = Some (workingExample\<lparr>settings := DEFAULT_SETTINGS\<lparr>objectId := 1\<rparr>,
                             nextMicroBreakTimeRef := Some 310000,
                             microBreakRemainingRef := Some 240000\<rparr>)"
  by (simp add: step_def settle_quiet onSave_def microBreakEffect_def workingExample_def
        DEFAULT_SETTINGS_def tickDeps_def microBreakDeps_def envAt_def
        scheduleNextMicroBreak_def randomSeconds_def safeMin_def safeMax_def)

subsection \<open>Pause and resume\<close>

text \<open>
  C1. On the code the claim fails. Work is running with the micro-break deadline at
  100000; pausing at 70000 stores the 30000 ms that were left. Resuming at 500000 makes
  \<open>toggleTimer\<close> set the deadline to 530000, and then the micro-break effect, which runs
  because \<open>isActive\<close> changed, draws a new interval (240 s for \<open>Math.random() = 0.5\<close>):
  the deadline ends at 740000, 240000 ms away instead of 30000.
\<close>

theorem toggleTimer_pause_resume_example:
  "nextMicroBreakTimeRef workingExample = Some (70000 + 30000)
   \<and> step (envAt 70000 0) ToggleTimer workingExample
       = Some (workingExample\<lparr>isActive := False, nextMicroBreakTimeRef := None,
                               microBreakRemainingRef := Some 30000\<rparr>)
   \<and> run [(envAt 70000 0, ToggleTimer), (envAt 500000 (1/2), ToggleTimer)] workingExample
       = Some (workingExample\<lparr>nextMicroBreakTimeRef := Some (500000 + 240000),
                               microBreakRemainingRef := Some 240000\<rparr>)"
  by (simp add: step_def settle_quiet toggleTimer_def microBreakEffect_def workingExample_def
        DEFAULT_SETTINGS_def tickDeps_def microBreakDeps_def truthy_def envAt_def
        scheduleNextMicroBreak_def randomSeconds_def safeMin_def safeMax_def)

subsection \<open>The work-time ledger\<close>

lemma secondsWorkedOn_record:
  "secondsWorkedOn d
     (case findIndex (\<lambda>l. date l = d) prev of
        Some i \<Rightarrow> prev[i := (prev ! i)\<lparr>secondsWorked := secondsWorked (prev ! i) + n\<rparr>]
      | None \<Rightarrow> prev @ [\<lparr>date = d, secondsWorked = n, tasksCompleted = None\<rparr>])
   = secondsWorkedOn d prev + n"
  by (induction prev) (auto simp: secondsWorkedOn_def split: option.splits)

lemma dates_record:
  "take (length prev) (map date
     (case findIndex (\<lambda>l. date l = d) prev of
        Some i \<Rightarrow> prev[i := (prev ! i)\<lparr>secondsWorked := secondsWorked (prev ! i) + n\<rparr>]
      | None \<Rightarrow> prev @ [\<lparr>date = d, secondsWorked = n, tasksCompleted = None\<rparr>]))
   = map date prev"
  by (induction prev) (auto split: option.splits)

lemma nonneg_record:
  "0 \<le> n \<Longrightarrow> list_all (\<lambda>l. 0 \<le> secondsWorked l) prev \<Longrightarrow>
   list_all (\<lambda>l. 0 \<le> secondsWorked l)
     (case findIndex (\<lambda>l. date l = d) prev of
        Some i \<Rightarrow> prev[i := (prev ! i)\<lparr>secondsWorked := secondsWorked (prev ! i) + n\<rparr>]
      | None \<Rightarrow> prev @ [\<lparr>date = d, secondsWorked = n, tasksCompleted = None\<rparr>])"
  by (induction prev) (auto split: option.splits)

lemma recordWorkTime_ledger:
  "secondsWorkedOn (today env) (logs (recordWorkTime env n s))
     = secondsWorkedOn (today env) (logs s) + n"
  using secondsWorkedOn_record[of "today env" "logs s" n]
  by (simp add: recordWorkTime_def Let_def split: option.splits)

lemma recordWorkTime_dates:
  "take (length (logs s)) (map date (logs (recordWorkTime env n s))) = map date (logs s)"
  using dates_record[of "logs s" "today env" n]
  by (simp add: recordWorkTime_def Let_def split: option.splits)

lemma recordWorkTime_nonneg:
  "0 \<le> n \<Longrightarrow> list_all (\<lambda>l. 0 \<le> secondsWorked l) (logs s) \<Longrightarrow>
   list_all (\<lambda>l. 0 \<le> secondsWorked l) (logs (recordWorkTime env n s))"
  using nonneg_record[of n "logs s" "today env"]
  by (simp add: recordWorkTime_def Let_def split: option.splits)

lemma recordWorkTime_frame:
  "\<exists>lg. recordWorkTime env n s = s\<lparr>logs := lg\<rparr>"
  by (auto simp: recordWorkTime_def Let_def split: option.splits)

lemma recordWorkTime_length:
  "length (logs s) \<le> length (logs (recordWorkTime env n s))"
  by (simp add: recordWorkTime_def Let_def split: option.splits)

lemma tick_work:
  assumes "mode s = WORK" "isActive s" "0 < timeRemaining s" "\<not> microBreakDue env s"
  shows "tick env s = recordWorkTime env 1 (s\<lparr>timeRemaining := timeRemaining s - 1\<rparr>)"
  using assms by (simp add: tick_def Let_def)

lemma step_tick_work:
  assumes "mode s = WORK" "isActive s" "1 < timeRemaining s" "\<not> microBreakDue env s"
  shows "step env Tick s = Some (recordWorkTime env 1 (s\<lparr>timeRemaining := timeRemaining s - 1\<rparr>))"
proof -
  obtain lg where lg: "recordWorkTime env 1 (s\<lparr>timeRemaining := timeRemaining s - 1\<rparr>)
      = s\<lparr>timeRemaining := timeRemaining s - 1, logs := lg\<rparr>"
    using recordWorkTime_frame[of env 1 "s\<lparr>timeRemaining := timeRemaining s - 1\<rparr>"] by auto
  show ?thesis
    using assms
    by (simp add: step_def tick_work lg settle_quiet microBreakDeps_def)
qed

subsection \<open>Ticks during Work\<close>

lemma run_append:
  "run (xs @ ys) s = (case run xs s of None \<Rightarrow> None | Some s' \<Rightarrow> run ys s')"
  by (induction xs arbitrary: s) (auto split: option.splits)

lemma microBreakDue_frame:
  "microBreakDue env (s\<lparr>timeRemaining := t, logs := lg\<rparr>) = microBreakDue env s"
  by (simp add: microBreakDue_def)

lemma dates_record_prefix:
  "prefix (map date (logs s)) (map date (logs (recordWorkTime env n s)))"
  using recordWorkTime_dates[of s env n] recordWorkTime_length[of s env n]
  by (metis length_map take_is_prefix)

lemma run_ticks_work:
  assumes "mode s = WORK" "isActive s"
    and "\<forall>env \<in> set envs. \<not> microBreakDue env s \<and> today env = d"
    and "int (length envs) < timeRemaining s"
  shows "\<exists>lg. run (ticks envs) s
             = Some (s\<lparr>timeRemaining := timeRemaining s - int (length envs), logs := lg\<rparr>)
           \<and> secondsWorkedOn d lg = secondsWorkedOn d (logs s) + int (length envs)
           \<and> prefix (map date (logs s)) (map date lg)
           \<and> (list_all (\<lambda>l. 0 \<le> secondsWorked l) (logs s)
                \<longrightarrow> list_all (\<lambda>l. 0 \<le> secondsWorked l) lg)"
  using assms
proof (induction envs arbitrary: s)
  case Nil
  have "s = s\<lparr>logs := logs s\<rparr>" by simp
  then show ?case by (auto simp: ticks_def intro!: exI[of _ "logs s"])
next
  case (Cons env envs)
  let ?s0 = "s\<lparr>timeRemaining := timeRemaining s - 1\<rparr>"
  let ?s1 = "recordWorkTime env 1 ?s0"
  have due: "\<not> microBreakDue env s" and d: "today env = d" using Cons.prems(3) by auto
  have st: "step env Tick s = Some ?s1"
    using Cons.prems due by (intro step_tick_work) auto
  obtain lg1 where lg1: "?s1 = s\<lparr>timeRemaining := timeRemaining s - 1, logs := lg1\<rparr>"
    using recordWorkTime_frame[of env 1 ?s0] by auto
  have led1: "secondsWorkedOn d (logs ?s1) = secondsWorkedOn d (logs s) + 1"
    using recordWorkTime_ledger[of env 1 ?s0] d by simp
  have pre1: "prefix (map date (logs s)) (map date (logs ?s1))"
    using dates_record_prefix[of ?s0 env 1] by simp
  have nn1: "list_all (\<lambda>l. 0 \<le> secondsWorked l) (logs s)
               \<Longrightarrow> list_all (\<lambda>l. 0 \<le> secondsWorked l) (logs ?s1)"
    using recordWorkTime_nonneg[of 1 ?s0 env] by simp
  have p1: "mode ?s1 = WORK" "isActive ?s1" using Cons.prems lg1 by simp_all
  have p3: "\<forall>e \<in> set envs. \<not> microBreakDue e ?s1 \<and> today e = d"
    using Cons.prems(3) lg1 by (simp add: microBreakDue_frame)
  have p4: "int (length envs) < timeRemaining ?s1" using Cons.prems(4) lg1 by simp
  from Cons.IH[OF p1 p3 p4] obtain lg where
    r: "run (ticks envs) ?s1
          = Some (?s1\<lparr>timeRemaining := timeRemaining ?s1 - int (length envs), logs := lg\<rparr>)"
    and led: "secondsWorkedOn d lg = secondsWorkedOn d (logs ?s1) + int (length envs)"
    and pre: "prefix (map date (logs ?s1)) (map date lg)"
    and nn: "list_all (\<lambda>l. 0 \<le> secondsWorked l) (logs ?s1)
               \<longrightarrow> list_all (\<lambda>l. 0 \<le> secondsWorked l) lg"
    by blast
  have "run (ticks (env # envs)) s
          = Some (s\<lparr>timeRemaining := timeRemaining s - int (length (env # envs)), logs := lg\<rparr>)"
    using st r lg1 by (simp add: ticks_def algebra_simps)
  moreover have "secondsWorkedOn d lg = secondsWorkedOn d (logs s) + int (length (env # envs))"
    using led led1 by simp
  moreover have "prefix (map date (logs s)) (map date lg)"
    using pre1 pre by (rule prefix_order.trans)
  moreover have "list_all (\<lambda>l. 0 \<le> secondsWorked l) (logs s)
                   \<longrightarrow> list_all (\<lambda>l. 0 \<le> secondsWorked l) lg"
    using nn nn1 by blast
  ultimately show ?case by blast
qed

lemma step_tick_work_last:
  assumes "mode s = WORK" "isActive s" "timeRemaining s = 1" "\<not> microBreakDue env s"
    and "\<not> (autoStartBreak (settings s) \<and> breakDuration (settings s) = 0)"
  shows "\<exists>s'. step env Tick s = Some s' \<and> mode s' = SHORT_BREAK
           \<and> timeRemaining s' = breakDuration (settings s) * 60
           \<and> isActive s' = autoStartBreak (settings s)
           \<and> logs s' = logs (recordWorkTime env 1 s) \<and> settings s' = settings s"
proof -
  obtain lg where lg: "recordWorkTime env 1 (s\<lparr>timeRemaining := timeRemaining s - 1\<rparr>)
      = s\<lparr>timeRemaining := timeRemaining s - 1, logs := lg\<rparr>"
    and lg': "lg = logs (recordWorkTime env 1 s)"
    by (auto simp: recordWorkTime_def Let_def split: option.splits)
  let ?c = "s\<lparr>timeRemaining := 0, logs := lg\<rparr>"
  have t: "tick env s = ?c" using assms lg by (simp add: tick_work)
  have z: "settle env s ?c = settle env ?c (countdownZero env ?c ?c)"
    using assms by (subst settle_zero) (simp_all add: tickDeps_def microBreakDeps_def)
  have c2: "countdownZero env ?c ?c
      = ?c\<lparr>mode := SHORT_BREAK, timeRemaining := breakDuration (settings s) * 60,
           isActive := autoStartBreak (settings s)\<rparr>"
    using assms by (simp add: countdownZero_def switchMode_def Let_def split: option.splits)
  show ?thesis
    using assms(5) unfolding step_def handle.simps t z c2
    by (subst settle_quiet) (auto simp: microBreakEffect_def lg')
qed

text \<open>
  C5, as amended. Work is running with \<open>T > 0\<close> seconds left, and no micro-break is due
  at any of the \<open>N\<close> ticks, which all fall on the day \<open>d\<close>. For \<open>N \<le> T\<close> the ticks add
  exactly \<open>N\<close> seconds to the record of \<open>d\<close>. For \<open>N < T\<close> the machine is still in Work,
  running, with \<open>T - N\<close> seconds left; at \<open>N = T\<close> the countdown has reached 0 and the
  machine has gone on to ShortBreak with the duration of ShortBreak (provided the break
  does not end at once: not both \<open>autoStartBreak\<close> and \<open>breakDuration = 0\<close>). The seconds
  of \<open>d\<close> never decrease, the records that were there stay in place, and secondsWorked
  stays non-negative everywhere if it was.
\<close>

theorem ticks_work_spec:
  assumes "mode s = WORK" and "isActive s" and "0 < timeRemaining s"
    and "\<forall>env \<in> set envs. \<not> microBreakDue env s \<and> today env = d"
    and "int (length envs) \<le> timeRemaining s"
    and "int (length envs) = timeRemaining s \<longrightarrow>
           \<not> (autoStartBreak (settings s) \<and> breakDuration (settings s) = 0)"
  shows "\<exists>s'. run (ticks envs) s = Some s'
           \<and> secondsWorkedOn d (logs s') = secondsWorkedOn d (logs s) + int (length envs)
           \<and> (if int (length envs) < timeRemaining s
               then mode s' = WORK \<and> isActive s'
                    \<and> timeRemaining s' = timeRemaining s - int (length envs)
               else mode s' = SHORT_BREAK \<and> isActive s' = autoStartBreak (settings s)
                    \<and> timeRemaining s' = getDurationForMode (settings s) SHORT_BREAK)
           \<and> secondsWorkedOn d (logs s) \<le> secondsWorkedOn d (logs s')
           \<and> prefix (map date (logs s)) (map date (logs s'))
           \<and> (list_all (\<lambda>l. 0 \<le> secondsWorked l) (logs s)
                \<longrightarrow> list_all (\<lambda>l. 0 \<le> secondsWorked l) (logs s'))"
proof (cases "int (length envs) < timeRemaining s")
  case True
  from run_ticks_work[OF assms(1,2,4) True] obtain lg where
    "run (ticks envs) s
       = Some (s\<lparr>timeRemaining := timeRemaining s - int (length envs), logs := lg\<rparr>)"
    "secondsWorkedOn d lg = secondsWorkedOn d (logs s) + int (length envs)"
    "prefix (map date (logs s)) (map date lg)"
    "list_all (\<lambda>l. 0 \<le> secondsWorked l) (logs s) \<longrightarrow> list_all (\<lambda>l. 0 \<le> secondsWorked l) lg"
    by blast
  then show ?thesis using True assms(1,2) by simp
next
  case False
  then have len: "int (length envs) = timeRemaining s" using assms(5) by simp
  then have "envs \<noteq> []" using assms(3) by auto
  then obtain front e where envs: "envs = front @ [e]" by (metis rev_exhaust)
  have f4: "\<forall>env \<in> set front. \<not> microBreakDue env s \<and> today env = d"
    using assms(4) envs by simp
  have fl: "int (length front) < timeRemaining s" using len envs by simp
  from run_ticks_work[OF assms(1,2) f4 fl] obtain lg where
    r: "run (ticks front) s
       = Some (s\<lparr>timeRemaining := timeRemaining s - int (length front), logs := lg\<rparr>)"
    and led: "secondsWorkedOn d lg = secondsWorkedOn d (logs s) + int (length front)"
    and pre: "prefix (map date (logs s)) (map date lg)"
    and nn: "list_all (\<lambda>l. 0 \<le> secondsWorked l) (logs s)
               \<longrightarrow> list_all (\<lambda>l. 0 \<le> secondsWorked l) lg"
    by blast
  let ?m = "s\<lparr>timeRemaining := timeRemaining s - int (length front), logs := lg\<rparr>"
  have e: "\<not> microBreakDue e ?m" "today e = d"
    using assms(4) envs by (simp_all add: microBreakDue_frame)
  have m: "mode ?m = WORK" "isActive ?m" "timeRemaining ?m = 1"
    using assms(1,2) len envs by simp_all
  have nz: "\<not> (autoStartBreak (settings ?m) \<and> breakDuration (settings ?m) = 0)"
    using assms(6) len by simp
  from step_tick_work_last[OF m e(1) nz] obtain s' where
    s': "step e Tick ?m = Some s'" "mode s' = SHORT_BREAK"
      "timeRemaining s' = breakDuration (settings s) * 60"
      "isActive s' = autoStartBreak (settings s)"
      "logs s' = logs (recordWorkTime e 1 ?m)"
    by auto
  have run: "run (ticks envs) s = Some s'"
    using r s'(1) by (simp add: envs ticks_def run_append)
  have led': "secondsWorkedOn d (logs s') = secondsWorkedOn d (logs s) + int (length envs)"
    using recordWorkTime_ledger[of e 1 ?m] e(2) led s'(5) envs by simp
  have pre': "prefix (map date (logs s)) (map date (logs s'))"
    using pre dates_record_prefix[of ?m e 1] s'(5) by (auto intro: prefix_order.trans)
  have nn': "list_all (\<lambda>l. 0 \<le> secondsWorked l) (logs s)
               \<longrightarrow> list_all (\<lambda>l. 0 \<le> secondsWorked l) (logs s')"
    using nn recordWorkTime_nonneg[of 1 ?m e] s'(5) by simp
  show ?thesis using False run led' pre' nn' s'(2,3,4) by simp
qed

theorem ticks_work_witness:
  "mode lastSecondExample = WORK \<and> isActive lastSecondExample
   \<and> (\<exists>s'. run (ticks [envAt 1000 0]) (lastSecondExample\<lparr>timeRemaining := 3\<rparr>) = Some s'
         \<and> secondsWorkedOn ''2024-05-01'' (logs s') = 1 \<and> timeRemaining s' = 2 \<and> mode s' = WORK)"
  using ticks_work_spec[of "lastSecondExample\<lparr>timeRemaining := 3\<rparr>" "[envAt 1000 0]" "''2024-05-01''"]
  by (auto simp add: lastSecondExample_def microBreakDue_def envAt_def DEFAULT_SETTINGS_def
        truthy_def secondsWorkedOn_def)

text \<open>
  With one second of Work left, one tick ends in ShortBreak with the 600 seconds of the
  break, not with 0 seconds; two ticks end there with 599 seconds left, not with
  \<open>max 0 (1 - 2) = 0\<close>, and have added one second to the ledger, not two.
\<close>

theorem ticks_work_counterexample:
  "mode lastSecondExample = WORK \<and> isActive lastSecondExample
   \<and> timeRemaining lastSecondExample = 1
   \<and> \<not> microBreakDue (envAt 1000 0) lastSecondExample
   \<and> \<not> microBreakDue (envAt 2000 0) lastSecondExample
   \<and> run (ticks [envAt 1000 0]) lastSecondExample
       = Some (lastSecondExample\<lparr>mode := SHORT_BREAK, timeRemaining := 600,
                logs := [\<lparr>date = ''2024-05-01'', secondsWorked = 1, tasksCompleted = None\<rparr>]\<rparr>)
   \<and> (600::int) \<noteq> max 0 (1 - 1)
   \<and> run (ticks [envAt 1000 0, envAt 2000 0]) lastSecondExample
       = Some (lastSecondExample\<lparr>mode := SHORT_BREAK, timeRemaining := 599,
                logs := [\<lparr>date = ''2024-05-01'', secondsWorked = 1, tasksCompleted = None\<rparr>]\<rparr>)
   \<and> (599::int) \<noteq> max 0 (1 - 2)
   \<and> secondsWorkedOn ''2024-05-01''
        [\<lparr>date = ''2024-05-01'', secondsWorked = 1, tasksCompleted = None\<rparr>]
       \<noteq> secondsWorkedOn ''2024-05-01'' (logs lastSecondExample) + 2"
proof -
  let ?a = "lastSecondExample\<lparr>mode := SHORT_BREAK, timeRemaining := 600,
      logs := [\<lparr>date = ''2024-05-01'', secondsWorked = 1, tasksCompleted = None\<rparr>]\<rparr>"
  let ?b = "lastSecondExample\<lparr>mode := SHORT_BREAK, timeRemaining := 599,
      logs := [\<lparr>date = ''2024-05-01'', secondsWorked = 1, tasksCompleted = None\<rparr>]\<rparr>"
  have t1: "tick (envAt 1000 0) lastSecondExample
      = lastSecondExample\<lparr>timeRemaining := 0,
          logs := [\<lparr>date = ''2024-05-01'', secondsWorked = 1, tasksCompleted = None\<rparr>]\<rparr>"
    by (simp add: lastSecondExample_def microBreakDue_def envAt_def tick_def
        DEFAULT_SETTINGS_def truthy_def recordWorkTime_def Let_def)
  have s1: "step (envAt 1000 0) Tick lastSecondExample = Some ?a"
    unfolding step_def handle.simps t1
    apply (subst settle_zero)
       apply (simp_all add: tickDeps_def microBreakDeps_def lastSecondExample_def)
    apply (subst settle_quiet)
     apply (simp_all add: tickDeps_def microBreakDeps_def microBreakEffect_def
        countdownZero_def switchMode_def Let_def DEFAULT_SETTINGS_def)
    done
  have s2: "step (envAt 2000 0) Tick ?a = Some ?b"
    unfolding step_def handle.simps
    apply (subst settle_quiet)
     apply (simp_all add: tickDeps_def microBreakDeps_def microBreakEffect_def tick_def
        microBreakDue_def Let_def lastSecondExample_def)
    done
  have r: "run (ticks [envAt 1000 0, envAt 2000 0]) lastSecondExample = Some ?b"
    by (simp add: ticks_def s1 s2)
  have r1: "run (ticks [envAt 1000 0]) lastSecondExample = Some ?a"
    by (simp add: ticks_def s1)
  show ?thesis
    unfolding r r1
    by (simp add: lastSecondExample_def microBreakDue_def envAt_def DEFAULT_SETTINGS_def
        truthy_def secondsWorkedOn_def)
qed

subsection \<open>Micro-breaks: preemption and return\<close>

lemma switchMode_return:
  assumes "mode r = MICRO_BREAK" "workTimeSnapshotRef x = Some R"
  shows "mode (switchMode env r WORK mt x) = WORK"
    "isActive (switchMode env r WORK mt x)"
    "timeRemaining (switchMode env r WORK mt x) = R"
    "workTimeSnapshotRef (switchMode env r WORK mt x) = None"
    "settings (switchMode env r WORK mt x) = settings x"
    "logs (switchMode env r WORK mt x) = logs x"
  using assms by (simp_all add: switchMode_def scheduleNextMicroBreak_def Let_def)

lemma microBreakEffect_frame:
  "mode (microBreakEffect env r x) = mode x"
  "isActive (microBreakEffect env r x) = isActive x"
  "timeRemaining (microBreakEffect env r x) = timeRemaining x"
  "workTimeSnapshotRef (microBreakEffect env r x) = workTimeSnapshotRef x"
  "settings (microBreakEffect env r x) = settings x"
  "logs (microBreakEffect env r x) = logs x"
  "showMicroBreakOverlay (microBreakEffect env r x) = showMicroBreakOverlay x"
  by (simp_all add: microBreakEffect_def scheduleNextMicroBreak_def Let_def)

lemma settle_quiet_frame:
  assumes "\<not> (timeRemaining cur = 0 \<and> isActive cur)"
  shows "\<exists>s'. settle env prev cur = Some s' \<and> mode s' = mode cur \<and> isActive s' = isActive cur
           \<and> timeRemaining s' = timeRemaining cur
           \<and> workTimeSnapshotRef s' = workTimeSnapshotRef cur
           \<and> settings s' = settings cur \<and> logs s' = logs cur
           \<and> showMicroBreakOverlay s' = showMicroBreakOverlay cur"
  using assms by (subst settle_quiet) (auto simp: microBreakEffect_frame)

lemma step_skipMicroBreak:
  assumes "mode m = MICRO_BREAK" "workTimeSnapshotRef m = Some R" "R \<noteq> 0"
  shows "\<exists>s'. step env SkipMicroBreak m = Some s' \<and> mode s' = WORK \<and> isActive s'
           \<and> timeRemaining s' = R \<and> workTimeSnapshotRef s' = None
           \<and> settings s' = settings m"
proof -
  let ?c = "skipMicroBreak env m"
  have c: "mode ?c = WORK" "isActive ?c" "timeRemaining ?c = R" "workTimeSnapshotRef ?c = None"
    "settings ?c = settings m"
    using assms switchMode_return[of m "m\<lparr>showMicroBreakOverlay := False\<rparr>" R env False]
    by (simp_all add: skipMicroBreak_def)
  have "\<not> (timeRemaining ?c = 0 \<and> isActive ?c)" using c assms(3) by simp
  from settle_quiet_frame[OF this, of env m] show ?thesis
    using c by (auto simp: step_def)
qed

lemma step_tick_microBreak_last:
  assumes "mode m = MICRO_BREAK" "isActive m" "timeRemaining m = 1"
    "workTimeSnapshotRef m = Some R" "R \<noteq> 0"
  shows "\<exists>s'. step env Tick m = Some s' \<and> mode s' = WORK \<and> isActive s'
           \<and> timeRemaining s' = R \<and> workTimeSnapshotRef s' = None
           \<and> settings s' = settings m"
proof -
  let ?c = "m\<lparr>timeRemaining := 0\<rparr>"
  have t: "tick env m = ?c" using assms by (simp add: tick_def microBreakDue_def Let_def)
  let ?z = "countdownZero env ?c ?c"
  have z: "settle env m ?c = settle env ?c ?z"
    using assms by (subst settle_zero) (simp_all add: tickDeps_def microBreakDeps_def)
  have c: "mode ?z = WORK" "isActive ?z" "timeRemaining ?z = R" "workTimeSnapshotRef ?z = None"
    "settings ?z = settings m"
    using assms
      switchMode_return[of ?c "m\<lparr>timeRemaining := 0, isActive := False, showMicroBreakOverlay := False\<rparr>" R env False]
    by (simp_all add: countdownZero_def)
  have "\<not> (timeRemaining ?z = 0 \<and> isActive ?z)" using c assms(5) by simp
  from settle_quiet_frame[OF this, of env ?c] show ?thesis
    using c by (auto simp: step_def t z)
qed

lemma step_tick_microBreak:
  assumes "mode m = MICRO_BREAK" "isActive m" "1 < timeRemaining m"
  shows "step env Tick m = Some (m\<lparr>timeRemaining := timeRemaining m - 1\<rparr>)"
  using assms
  by (simp add: step_def tick_def microBreakDue_def Let_def settle_quiet microBreakDeps_def)

lemma run_ticks_microBreak:
  assumes "mode m = MICRO_BREAK" "isActive m" "timeRemaining m = int (length envs)"
    "envs \<noteq> []" "workTimeSnapshotRef m = Some R" "R \<noteq> 0"
  shows "\<exists>s'. run (ticks envs) m = Some s' \<and> mode s' = WORK \<and> isActive s'
           \<and> timeRemaining s' = R \<and> workTimeSnapshotRef s' = None
           \<and> settings s' = settings m"
  using assms
proof (induction envs arbitrary: m)
  case Nil
  then show ?case by simp
next
  case (Cons env envs)
  show ?case
  proof (cases "envs = []")
    case True
    then have "timeRemaining m = 1" using Cons.prems by simp
    from step_tick_microBreak_last[OF Cons.prems(1,2) this Cons.prems(5,6), of env]
    show ?thesis using True by (auto simp: ticks_def)
  next
    case False
    then have gt: "1 < timeRemaining m" using Cons.prems(3) by (cases envs) auto
    let ?m = "m\<lparr>timeRemaining := timeRemaining m - 1\<rparr>"
    have st: "step env Tick m = Some ?m"
      using Cons.prems(1,2) gt by (rule step_tick_microBreak)
    have "\<exists>s'. run (ticks envs) ?m = Some s' \<and> mode s' = WORK \<and> isActive s'
           \<and> timeRemaining s' = R \<and> workTimeSnapshotRef s' = None
           \<and> settings s' = settings ?m"
      using Cons.prems False by (intro Cons.IH) simp_all
    then show ?thesis using st by (auto simp: ticks_def)
  qed
qed

lemma run_ticks_microBreak_partial:
  assumes "mode m = MICRO_BREAK" "isActive m" "int (length envs) < timeRemaining m"
  shows "run (ticks envs) m = Some (m\<lparr>timeRemaining := timeRemaining m - int (length envs)\<rparr>)"
  using assms
proof (induction envs arbitrary: m)
  case Nil
  then show ?case by (simp add: ticks_def)
next
  case (Cons env envs)
  let ?m = "m\<lparr>timeRemaining := timeRemaining m - 1\<rparr>"
  have st: "step env Tick m = Some ?m"
    using Cons.prems by (intro step_tick_microBreak) auto
  have "run (ticks envs) ?m = Some (?m\<lparr>timeRemaining := timeRemaining ?m - int (length envs)\<rparr>)"
    using Cons.prems by (intro Cons.IH) simp_all
  then show ?case using st by (simp add: ticks_def algebra_simps)
qed

lemma tick_preempt:
  assumes "mode s = WORK" "isActive s" "0 < timeRemaining s" "microBreakDue env s"
  shows "mode (tick env s) = MICRO_BREAK" "isActive (tick env s)"
    "timeRemaining (tick env s) = microBreakDuration (settings s)"
    "workTimeSnapshotRef (tick env s) = Some (timeRemaining s)"
    "settings (tick env s) = settings s"
    "showMicroBreakOverlay (tick env s)"
    "nextMicroBreakTimeRef (tick env s) = None"
    "microBreakRemainingRef (tick env s) = None"
  using assms
  by (simp_all add: tick_def switchMode_def recordWorkTime_def Let_def split: option.splits)

lemma step_tick_preempt:
  assumes "mode s = WORK" "isActive s" "0 < timeRemaining s" "microBreakDue env s"
    and "microBreakDuration (settings s) \<noteq> 0"
  shows "\<exists>s1. step env Tick s = Some s1 \<and> mode s1 = MICRO_BREAK \<and> isActive s1
           \<and> timeRemaining s1 = microBreakDuration (settings s)
           \<and> workTimeSnapshotRef s1 = Some (timeRemaining s)
           \<and> settings s1 = settings s \<and> showMicroBreakOverlay s1"
proof -
  note t = tick_preempt[OF assms(1-4)]
  have "\<not> (timeRemaining (tick env s) = 0 \<and> isActive (tick env s))"
    using t assms(5) by simp
  from settle_quiet_frame[OF this, of env s] show ?thesis
    using t by (auto simp: step_def)
qed

lemma step_tick_preempt_zero:
  assumes "mode s = WORK" "isActive s" "0 < timeRemaining s" "microBreakDue env s"
    and "microBreakDuration (settings s) = 0"
  shows "\<exists>s1. step env Tick s = Some s1 \<and> mode s1 = WORK \<and> isActive s1
           \<and> timeRemaining s1 = timeRemaining s \<and> workTimeSnapshotRef s1 = None
           \<and> settings s1 = settings s"
proof -
  let ?c = "tick env s"
  note t = tick_preempt[OF assms(1-4)]
  let ?e = "if microBreakDeps s ?c then microBreakEffect env ?c ?c else ?c"
  let ?z = "countdownZero env ?c ?e"
  have z: "settle env s ?c = settle env ?c ?z"
    using t assms by (subst settle_zero) (simp_all add: tickDeps_def)
  have e: "workTimeSnapshotRef ?e = Some (timeRemaining s)" "settings ?e = settings s"
    using t by (simp_all add: microBreakEffect_frame)
  have c: "mode ?z = WORK" "isActive ?z" "timeRemaining ?z = timeRemaining s"
    "workTimeSnapshotRef ?z = None" "settings ?z = settings s"
    using t(1) e
      switchMode_return[of ?c "?e\<lparr>isActive := False, showMicroBreakOverlay := False\<rparr>"
          "timeRemaining s" env False]
    by (simp_all add: countdownZero_def)
  have "\<not> (timeRemaining ?z = 0 \<and> isActive ?z)" using c assms(3) by simp
  from settle_quiet_frame[OF this, of env ?c] show ?thesis
    using c by (auto simp: step_def z)
qed

text \<open>
  C2. Work is running with \<open>R = timeRemaining > 0\<close> seconds left and a tick finds the
  micro-break due. The tick preempts into MicroBreak with the snapshot \<open>R\<close>. Whenever the
  micro-break then ends, by \<open>skipMicroBreak\<close> (at once or after some of its ticks) or by
  the ticks that take its countdown to 0, the state is Work, running, with
  \<open>timeRemaining = R\<close> and the snapshot cleared. The settings are arbitrary, so this
  holds for both values of \<open>autoStartWork\<close>. (With \<open>microBreakDuration = 0\<close> the
  micro-break ends within the preempting tick.)
\<close>

theorem microBreak_resume_spec:
  assumes "mode s = WORK" and "isActive s" and "0 < timeRemaining s"
    and "microBreakDue env s"
  shows "\<exists>s1. step env Tick s = Some s1 \<and>
          (if microBreakDuration (settings s) = 0
           then mode s1 = WORK \<and> isActive s1 \<and> timeRemaining s1 = timeRemaining s
                \<and> workTimeSnapshotRef s1 = None
           else mode s1 = MICRO_BREAK \<and> isActive s1
                \<and> workTimeSnapshotRef s1 = Some (timeRemaining s)
                \<and> (\<forall>envs envK.
                      int (length envs) < microBreakDuration (settings s) \<longrightarrow>
                      (\<exists>s2. run (ticks envs @ [(envK, SkipMicroBreak)]) s1 = Some s2
                         \<and> mode s2 = WORK \<and> isActive s2
                         \<and> timeRemaining s2 = timeRemaining s
                         \<and> workTimeSnapshotRef s2 = None))
                \<and> (\<forall>envK. \<exists>s2. step envK SkipMicroBreak s1 = Some s2
                         \<and> mode s2 = WORK \<and> isActive s2
                         \<and> timeRemaining s2 = timeRemaining s
                         \<and> workTimeSnapshotRef s2 = None)
                \<and> (\<forall>envs.
                      int (length envs) = microBreakDuration (settings s) \<longrightarrow>
                      (\<exists>s3. run (ticks envs) s1 = Some s3
                         \<and> mode s3 = WORK \<and> isActive s3
                         \<and> timeRemaining s3 = timeRemaining s
                         \<and> workTimeSnapshotRef s3 = None)))"
proof (cases "microBreakDuration (settings s) = 0")
  case True
  from step_tick_preempt_zero[OF assms True] show ?thesis using True by auto
next
  case False
  from step_tick_preempt[OF assms False] obtain s1 where
    s1: "step env Tick s = Some s1" "mode s1 = MICRO_BREAK" "isActive s1"
      "timeRemaining s1 = microBreakDuration (settings s)"
      "workTimeSnapshotRef s1 = Some (timeRemaining s)" "settings s1 = settings s"
    by auto
  have R: "timeRemaining s \<noteq> 0" using assms(3) by simp
  have skip: "\<exists>s2. step envK SkipMicroBreak s1 = Some s2
                         \<and> mode s2 = WORK \<and> isActive s2
                         \<and> timeRemaining s2 = timeRemaining s
                         \<and> workTimeSnapshotRef s2 = None" for envK
    using step_skipMicroBreak[OF s1(2,5) R, of envK] by auto
  have skipLater: "\<exists>s2. run (ticks envs @ [(envK, SkipMicroBreak)]) s1 = Some s2
                         \<and> mode s2 = WORK \<and> isActive s2
                         \<and> timeRemaining s2 = timeRemaining s
                         \<and> workTimeSnapshotRef s2 = None"
    if "int (length envs) < microBreakDuration (settings s)" for envs envK
  proof -
    let ?m = "s1\<lparr>timeRemaining := timeRemaining s1 - int (length envs)\<rparr>"
    have r: "run (ticks envs) s1 = Some ?m"
      using s1 that by (intro run_ticks_microBreak_partial) simp_all
    have "mode ?m = MICRO_BREAK" "workTimeSnapshotRef ?m = Some (timeRemaining s)"
      using s1 by simp_all
    from step_skipMicroBreak[OF this R, of envK] show ?thesis
      using r by (auto simp: run_append)
  qed
  have timeout: "\<exists>s3. run (ticks envs) s1 = Some s3
                         \<and> mode s3 = WORK \<and> isActive s3
                         \<and> timeRemaining s3 = timeRemaining s
                         \<and> workTimeSnapshotRef s3 = None"
    if "int (length envs) = microBreakDuration (settings s)" for envs
  proof -
    have "envs \<noteq> []" using that False by auto
    from run_ticks_microBreak[OF s1(2,3) _ this s1(5) R] that s1(4)
    show ?thesis by auto
  qed
  show ?thesis using False s1 skip skipLater timeout by auto
qed

theorem microBreak_witness:
  "mode workingExample = WORK \<and> isActive workingExample \<and> 0 < timeRemaining workingExample
   \<and> microBreakDue (envAt 100000 0) workingExample
   \<and> \<not> autoStartWork (settings workingExample)
   \<and> (\<exists>s1. step (envAt 100000 0) Tick workingExample = Some s1 \<and> mode s1 = MICRO_BREAK
          \<and> workTimeSnapshotRef s1 = Some 1500
          \<and> (\<exists>s2. step (envAt 103000 0) SkipMicroBreak s1 = Some s2 \<and> mode s2 = WORK
                 \<and> isActive s2 \<and> timeRemaining s2 = 1500 \<and> workTimeSnapshotRef s2 = None))"
  using microBreak_resume_spec[of workingExample "envAt 100000 0"]
  by (auto simp add: workingExample_def microBreakDue_def envAt_def DEFAULT_SETTINGS_def
        truthy_def)

text \<open>
  C4. On the code the claim fails in its last part. With the scenario's settings the
  application starts in Work; \<open>toggleTimer\<close> at time 0 starts the countdown and
  schedules the micro-break at 60000 ms. The ticks at 1000, 2000, ..., 59000 ms leave
  1441 seconds. The tick at 60000 ms finds the micro-break due: the mode becomes
  MicroBreak with 10 seconds, and the snapshot is the \<open>timeRemaining\<close> of the render
  before the tick, 1441, not 1440.
\<close>

theorem scenario_60_ticks:
  "\<exists>s'. run ((envAt 0 (1/2), ToggleTimer) # ticks (secondsFrom 1 61))
           (initialApp scenarioSettings []) = Some s'
      \<and> mode s' = MICRO_BREAK \<and> timeRemaining s' = 10
      \<and> workTimeSnapshotRef s' = Some 1441"
proof -
  let ?i = "initialApp scenarioSettings []"
  let ?a = "?i\<lparr>isActive := True, microBreakRemainingRef := Some 60000,
                  nextMicroBreakTimeRef := Some 60000\<rparr>"
  have rs: "randomSeconds (envAt 0 (1/2)) scenarioSettings = 60"
    by (simp add: randomSeconds_def safeMin_def safeMax_def scenarioSettings_def envAt_def)
  have st: "step (envAt 0 (1/2)) ToggleTimer ?i = Some ?a"
    unfolding step_def handle.simps
    apply (subst settle_quiet)
     apply (simp_all add: toggleTimer_def initialApp_def truthy_def scheduleNextMicroBreak_def
        microBreakEffect_def microBreakDeps_def tickDeps_def rs Let_def)
     apply (simp_all add: scenarioSettings_def envAt_def)
    done
  have a: "mode ?a = WORK" "isActive ?a" by (simp_all add: initialApp_def)
  have nd: "\<forall>env \<in> set (secondsFrom 1 60). \<not> microBreakDue env ?a \<and> today env = ''2024-05-01''"
    by (auto simp: secondsFrom_def microBreakDue_def envAt_def)
  have len: "int (length (secondsFrom 1 60)) < timeRemaining ?a"
    by (simp add: secondsFrom_def initialApp_def scenarioSettings_def)
  from run_ticks_work[OF a nd len] obtain lg where
    r: "run (ticks (secondsFrom 1 60)) ?a = Some (?a\<lparr>timeRemaining := 1441, logs := lg\<rparr>)"
    by (auto simp: secondsFrom_def initialApp_def scenarioSettings_def)
  let ?b = "?a\<lparr>timeRemaining := 1441, logs := lg\<rparr>"
  have b: "mode ?b = WORK" "isActive ?b" "0 < timeRemaining ?b"
    "microBreakDue (envAt 60000 (1/2)) ?b" "microBreakDuration (settings ?b) \<noteq> 0"
    by (simp_all add: initialApp_def microBreakDue_def envAt_def truthy_def scenarioSettings_def)
  from step_tick_preempt[OF b] obtain s' where
    s': "step (envAt 60000 (1/2)) Tick ?b = Some s'" "mode s' = MICRO_BREAK"
      "timeRemaining s' = 10" "workTimeSnapshotRef s' = Some 1441"
    by (auto simp: initialApp_def scenarioSettings_def)
  have "[1..<61] = [1..<60] @ [60::nat]"
    using upt_Suc_append[of 1 60] by simp
  then have split: "secondsFrom 1 61 = secondsFrom 1 60 @ [envAt 60000 (1/2)]"
    by (simp add: secondsFrom_def)
  have "run ((envAt 0 (1/2), ToggleTimer) # ticks (secondsFrom 1 61)) ?i = Some s'"
    using st r s'(1) by (subst split) (simp add: ticks_def run_append)
  then show ?thesis using s' by blast
qed

subsection \<open>Micro-breaks disabled\<close>

lemma scheduleInv_microBreakEffect:
  "settings x = settings r \<Longrightarrow> scheduleInv (microBreakEffect env r x)"
  by (simp add: scheduleInv_def scheduleEmpty_def microBreakEffect_def
      scheduleNextMicroBreak_def Let_def)

lemma countdownZero_frame:
  "settings (countdownZero env r x) = settings x"
  "mode (countdownZero env r x) \<noteq> MICRO_BREAK"
  "logs (countdownZero env r x) = logs x"
  by (simp_all add: countdownZero_def switchMode_def scheduleNextMicroBreak_def Let_def
      split: TimerMode.splits option.splits)

lemma scheduleInv_countdownZero:
  "scheduleInv x \<Longrightarrow> settings x = settings r \<Longrightarrow> scheduleInv (countdownZero env r x)"
  by (auto simp: scheduleInv_def scheduleEmpty_def countdownZero_def switchMode_def
      scheduleNextMicroBreak_def Let_def split: TimerMode.splits option.splits)

lemma settle_invariants:
  assumes "settle env prev cur = Some y"
  shows "settings y = settings cur \<and> logs y = logs cur
   \<and> ((scheduleInv cur \<or> microBreakDeps prev cur) \<longrightarrow> scheduleInv y)
   \<and> (mode cur \<noteq> MICRO_BREAK \<longrightarrow> mode y \<noteq> MICRO_BREAK)"
proof (rule settle.raw_induct[where P = "\<lambda>env prev cur y.
     settings y = settings cur \<and> logs y = logs cur
     \<and> ((scheduleInv cur \<or> microBreakDeps prev cur) \<longrightarrow> scheduleInv y)
     \<and> (mode cur \<noteq> MICRO_BREAK \<longrightarrow> mode y \<noteq> MICRO_BREAK)", OF _ assms])
  fix settle' :: "Env \<Rightarrow> App \<Rightarrow> App \<Rightarrow> App option" and env prev cur y
  assume IH: "\<And>env prev cur y. settle' env prev cur = Some y \<Longrightarrow>
     settings y = settings cur \<and> logs y = logs cur
     \<and> ((scheduleInv cur \<or> microBreakDeps prev cur) \<longrightarrow> scheduleInv y)
     \<and> (mode cur \<noteq> MICRO_BREAK \<longrightarrow> mode y \<noteq> MICRO_BREAK)"
  assume body: "(let s1 = if microBreakDeps prev cur then microBreakEffect env cur cur else cur
      in if tickDeps prev cur \<and> timeRemaining cur = 0 \<and> isActive cur
         then settle' env cur (countdownZero env cur s1) else Some s1) = Some y"
  let ?s1 = "if microBreakDeps prev cur then microBreakEffect env cur cur else cur"
  have s1: "settings ?s1 = settings cur" "logs ?s1 = logs cur" "mode ?s1 = mode cur"
    by (simp_all add: microBreakEffect_frame)
  have inv1: "scheduleInv cur \<or> microBreakDeps prev cur \<Longrightarrow> scheduleInv ?s1"
    by (auto simp: scheduleInv_microBreakEffect)
  show "settings y = settings cur \<and> logs y = logs cur
     \<and> ((scheduleInv cur \<or> microBreakDeps prev cur) \<longrightarrow> scheduleInv y)
     \<and> (mode cur \<noteq> MICRO_BREAK \<longrightarrow> mode y \<noteq> MICRO_BREAK)"
  proof (cases "tickDeps prev cur \<and> timeRemaining cur = 0 \<and> isActive cur")
    case True
    then have "settle' env cur (countdownZero env cur ?s1) = Some y"
      using body by (simp add: Let_def)
    from IH[OF this] show ?thesis
      using s1 inv1 scheduleInv_countdownZero[of ?s1 cur env]
      by (auto simp: countdownZero_frame)
  next
    case False
    then have "y = ?s1" using body by (auto simp: Let_def)
    then show ?thesis using s1 inv1 by auto
  qed
qed

lemma handle_settings:
  "settings (handle env ev s) = (case ev of SaveSettings st \<Rightarrow> st | _ \<Rightarrow> settings s)"
  by (cases ev)
    (auto simp: tick_def toggleTimer_def resetTimer_def skipMicroBreak_def onSave_def
      switchMode_def recordWorkTime_def scheduleNextMicroBreak_def Let_def
      split: option.splits)

lemma handle_scheduleInv:
  "scheduleInv s \<Longrightarrow> scheduleInv (handle env ev s) \<or> microBreakDeps s (handle env ev s)"
proof (cases ev)
  case Tick
  assume "scheduleInv s"
  then show ?thesis using Tick
    by (auto simp: scheduleInv_def scheduleEmpty_def tick_def switchMode_def recordWorkTime_def
        Let_def split: option.splits)
next
  case ToggleTimer
  assume "scheduleInv s"
  then show ?thesis using ToggleTimer
    by (auto simp: scheduleInv_def scheduleEmpty_def toggleTimer_def truthy_def
        scheduleNextMicroBreak_def Let_def)
next
  case ResetTimer
  then show ?thesis by (simp add: scheduleInv_def scheduleEmpty_def resetTimer_def)
next
  case SkipMicroBreak
  then show ?thesis
    by (auto simp: scheduleInv_def scheduleEmpty_def skipMicroBreak_def switchMode_def
        scheduleNextMicroBreak_def Let_def split: option.splits)
next
  case (SaveSettings st)
  assume "scheduleInv s"
  then show ?thesis using SaveSettings
    by (cases "st = settings s")
      (auto simp: scheduleInv_def scheduleEmpty_def onSave_def microBreakDeps_def Let_def)
qed

lemma handle_mode:
  "\<not> enableMicroBreaks (settings s) \<Longrightarrow> mode s \<noteq> MICRO_BREAK \<Longrightarrow>
   mode (handle env ev s) \<noteq> MICRO_BREAK"
  by (cases ev)
    (auto simp: tick_def microBreakDue_def toggleTimer_def resetTimer_def skipMicroBreak_def
      onSave_def switchMode_def recordWorkTime_def scheduleNextMicroBreak_def Let_def
      split: option.splits)

lemma step_scheduleInv:
  "scheduleInv s \<Longrightarrow> step env ev s = Some s' \<Longrightarrow> scheduleInv s'"
  using settle_invariants[of env s "handle env ev s" s'] handle_scheduleInv[of s env ev]
  by (auto simp: step_def)

lemma reachable_scheduleInv: "reachable s \<Longrightarrow> scheduleInv s"
proof (induction rule: reachable.induct)
  case (reachable_init st savedLogs)
  show ?case by (simp add: scheduleInv_def scheduleEmpty_def initialApp_def)
next
  case (reachable_step s env ev s')
  then show ?case using step_scheduleInv by blast
qed

lemma step_disabled:
  assumes "scheduleInv s" "\<not> enableMicroBreaks (settings s) \<or> ev = SaveSettings st"
    "keepsDisabled ev" "mode s \<noteq> MICRO_BREAK" "step env ev s = Some s'"
  shows "scheduleInv s' \<and> \<not> enableMicroBreaks (settings s') \<and> mode s' \<noteq> MICRO_BREAK"
proof -
  have "mode (onSave st s) = mode s" by (simp add: onSave_def Let_def)
  then have m: "mode (handle env ev s) \<noteq> MICRO_BREAK"
    using assms(2,4) handle_mode[of s env ev] by auto
  have st: "\<not> enableMicroBreaks (settings (handle env ev s))"
    using assms(2,3) handle_settings[of env ev s] by (cases ev) auto
  show ?thesis
    using settle_invariants[of env s "handle env ev s" s'] handle_scheduleInv[OF assms(1), of env ev]
      m st assms(5)
    by (auto simp: step_def)
qed

lemma run_disabled:
  assumes "scheduleInv s" "\<not> enableMicroBreaks (settings s)" "mode s \<noteq> MICRO_BREAK"
    "list_all (\<lambda>e. keepsDisabled (snd e)) evs" "run evs s = Some s'"
  shows "scheduleInv s' \<and> \<not> enableMicroBreaks (settings s') \<and> mode s' \<noteq> MICRO_BREAK"
  using assms
proof (induction evs arbitrary: s)
  case Nil
  then show ?case by simp
next
  case (Cons e evs)
  obtain env ev where e: "e = (env, ev)" by (cases e)
  from Cons.prems(5) obtain s1 where s1: "step env ev s = Some s1" "run evs s1 = Some s'"
    by (auto simp: e split: option.splits)
  have "scheduleInv s1 \<and> \<not> enableMicroBreaks (settings s1) \<and> mode s1 \<noteq> MICRO_BREAK"
    using step_disabled[OF Cons.prems(1) _ _ Cons.prems(3) s1(1)] Cons.prems(2,4) e by simp
  then show ?case using Cons.IH[of s1] Cons.prems(4) s1(2) by simp
qed

text \<open>
  C3. In every reachable state with micro-breaks disabled both refs of the schedule are
  empty and no tick finds a micro-break due; from there, along every sequence of events
  that leaves them disabled, the machine never enters MicroBreak (unless it was in it)
  and the schedule stays empty. From every reachable state in Work, whatever its pending
  schedule, a save that disables micro-breaks followed by any such sequence of events
  ends outside MicroBreak with the schedule empty. (These sequences do end in a state
  unless looping settings are in force: lemma \<open>run_total\<close> below.)
\<close>

theorem microBreaks_disabled_spec:
  assumes "reachable s"
  shows "(\<not> enableMicroBreaks (settings s) \<longrightarrow>
            nextMicroBreakTimeRef s = None \<and> microBreakRemainingRef s = None
            \<and> (\<forall>env. \<not> microBreakDue env s)
            \<and> (\<forall>evs s'. mode s \<noteq> MICRO_BREAK \<and> list_all (\<lambda>e. keepsDisabled (snd e)) evs
                  \<and> run evs s = Some s' \<longrightarrow>
                  mode s' \<noteq> MICRO_BREAK \<and> nextMicroBreakTimeRef s' = None
                  \<and> microBreakRemainingRef s' = None))
       \<and> (\<forall>env st evs s'. mode s = WORK \<and> \<not> enableMicroBreaks st
              \<and> list_all (\<lambda>e. keepsDisabled (snd e)) evs
              \<and> run ((env, SaveSettings st) # evs) s = Some s' \<longrightarrow>
              mode s' \<noteq> MICRO_BREAK \<and> nextMicroBreakTimeRef s' = None
              \<and> microBreakRemainingRef s' = None)"
proof -
  have inv: "scheduleInv s" using assms by (rule reachable_scheduleInv)
  have a: "nextMicroBreakTimeRef s = None \<and> microBreakRemainingRef s = None
            \<and> (\<forall>env. \<not> microBreakDue env s)" if "\<not> enableMicroBreaks (settings s)"
    using inv that by (simp add: scheduleInv_def scheduleEmpty_def microBreakDue_def)
  have b: "mode s' \<noteq> MICRO_BREAK \<and> nextMicroBreakTimeRef s' = None
                  \<and> microBreakRemainingRef s' = None"
    if "\<not> enableMicroBreaks (settings s)" "mode s \<noteq> MICRO_BREAK"
      "list_all (\<lambda>e. keepsDisabled (snd e)) evs" "run evs s = Some s'" for evs s'
    using run_disabled[OF inv that] by (auto simp: scheduleInv_def scheduleEmpty_def)
  have c: "mode s' \<noteq> MICRO_BREAK \<and> nextMicroBreakTimeRef s' = None
              \<and> microBreakRemainingRef s' = None"
    if "mode s = WORK" "\<not> enableMicroBreaks st" "list_all (\<lambda>e. keepsDisabled (snd e)) evs"
      "run ((env, SaveSettings st) # evs) s = Some s'" for env st evs s'
  proof -
    from that(4) obtain s1 where s1: "step env (SaveSettings st) s = Some s1"
      "run evs s1 = Some s'"
      by (auto split: option.splits)
    have "scheduleInv s1 \<and> \<not> enableMicroBreaks (settings s1) \<and> mode s1 \<noteq> MICRO_BREAK"
      using step_disabled[OF inv _ _ _ s1(1), of st] that(1,2) by simp
    then show ?thesis
      using run_disabled[of s1 evs s'] that(3) s1(2)
      by (auto simp: scheduleInv_def scheduleEmpty_def)
  qed
  show ?thesis using a b c by blast
qed

theorem microBreaks_disabled_witness:
  "reachable scheduledExample \<and> mode scheduledExample = WORK
   \<and> nextMicroBreakTimeRef scheduledExample = Some 240000
   \<and> (\<exists>s'. run [(envAt 1000 0, SaveSettings (DEFAULT_SETTINGS\<lparr>enableMicroBreaks := False\<rparr>)),
                 (envAt 300000 0, Tick)] scheduledExample = Some s'
          \<and> mode s' \<noteq> MICRO_BREAK \<and> nextMicroBreakTimeRef s' = None
          \<and> microBreakRemainingRef s' = None \<and> timeRemaining s' = 1799)"
proof -
  have "step (envAt 0 (1/2)) ToggleTimer (initialApp DEFAULT_SETTINGS []) = Some scheduledExample"
    unfolding step_def handle.simps
    apply (subst settle_quiet)
     apply (simp_all add: toggleTimer_def initialApp_def truthy_def scheduleNextMicroBreak_def
        microBreakEffect_def microBreakDeps_def tickDeps_def Let_def scheduledExample_def
        randomSeconds_def safeMin_def safeMax_def DEFAULT_SETTINGS_def envAt_def)
    done
  then have reach: "reachable scheduledExample"
    using reachable_init reachable_step by blast
  let ?off = "DEFAULT_SETTINGS\<lparr>enableMicroBreaks := False\<rparr>"
  let ?a = "scheduledExample\<lparr>settings := ?off, nextMicroBreakTimeRef := None,
      microBreakRemainingRef := None\<rparr>"
  have s1: "step (envAt 1000 0) (SaveSettings ?off) scheduledExample = Some ?a"
    unfolding step_def handle.simps
    apply (subst settle_quiet)
     apply (simp_all add: onSave_def initialApp_def microBreakEffect_def microBreakDeps_def
        tickDeps_def Let_def scheduledExample_def DEFAULT_SETTINGS_def)
    done
  have "\<exists>s2. step (envAt 300000 0) Tick ?a = Some s2 \<and> timeRemaining s2 = 1799"
    unfolding step_def handle.simps
    apply (subst settle_quiet)
     apply (simp_all add: tick_def microBreakDue_def initialApp_def microBreakEffect_def
        microBreakDeps_def tickDeps_def Let_def scheduledExample_def DEFAULT_SETTINGS_def
        recordWorkTime_def)
    done
  then obtain s2 where s2: "step (envAt 300000 0) Tick ?a = Some s2" "timeRemaining s2 = 1799"
    by blast
  have r: "run [(envAt 1000 0, SaveSettings ?off), (envAt 300000 0, Tick)] scheduledExample
      = Some s2"
    by (simp add: s1 s2)
  have m: "mode scheduledExample = WORK" "nextMicroBreakTimeRef scheduledExample = Some 240000"
    by (simp_all add: scheduledExample_def initialApp_def)
  have "mode s2 \<noteq> MICRO_BREAK \<and> nextMicroBreakTimeRef s2 = None
      \<and> microBreakRemainingRef s2 = None"
    using microBreaks_disabled_spec[OF reach, THEN conjunct2, rule_format,
        where st = ?off and evs = "[(envAt 300000 0, Tick)]" and env = "envAt 1000 0"
          and s' = s2] r m(1)
    by simp
  then show ?thesis using r s2(2) m reach by blast
qed

subsection \<open>The effects come to rest\<close>

text \<open>
  Unless the settings are looping, rendering ends after at most four rounds of effects,
  so every event yields a next state.
\<close>

lemma countdownZero_work:
  "mode r = WORK \<Longrightarrow>
   mode (countdownZero env r x) = SHORT_BREAK
   \<and> timeRemaining (countdownZero env r x) = breakDuration (settings r) * 60
   \<and> isActive (countdownZero env r x) = autoStartBreak (settings r)"
  by (simp add: countdownZero_def switchMode_def Let_def split: option.splits)

lemma countdownZero_break:
  "mode r = SHORT_BREAK \<Longrightarrow>
   mode (countdownZero env r x) = WORK
   \<and> timeRemaining (countdownZero env r x) = workDuration (settings r) * 60
   \<and> isActive (countdownZero env r x) = autoStartWork (settings r)"
  by (simp add: countdownZero_def switchMode_def scheduleNextMicroBreak_def Let_def
      split: option.splits)

lemma countdownZero_micro:
  "mode r = MICRO_BREAK \<Longrightarrow> mode (countdownZero env r x) = WORK"
  by (simp add: countdownZero_def switchMode_def scheduleNextMicroBreak_def Let_def
      split: option.splits)

lemma settle_quiet_ex:
  "\<not> (timeRemaining cur = 0 \<and> isActive cur) \<Longrightarrow> \<exists>y. settle env prev cur = Some y"
  using settle_quiet[of prev cur env] by auto

lemma settle_zero_ex:
  assumes "tickDeps prev cur \<and> timeRemaining cur = 0 \<and> isActive cur"
    and "\<exists>y. settle env cur (countdownZero env cur
             (if microBreakDeps prev cur then microBreakEffect env cur cur else cur)) = Some y"
  shows "\<exists>y. settle env prev cur = Some y"
proof -
  have "settle env prev cur = settle env cur (countdownZero env cur
             (if microBreakDeps prev cur then microBreakEffect env cur cur else cur))"
    using assms(1) by (intro settle_zero) auto
  then show ?thesis using assms(2) by simp
qed

lemma settle_total_work1:
  assumes "mode cur = WORK"
    "\<not> (breakDuration (settings cur) = 0 \<and> autoStartBreak (settings cur))"
  shows "\<exists>y. settle env prev cur = Some y"
proof (cases "tickDeps prev cur \<and> timeRemaining cur = 0 \<and> isActive cur")
  case False
  then show ?thesis using settle_quiet[of prev cur env] by auto
next
  case True
  let ?n = "countdownZero env cur
             (if microBreakDeps prev cur then microBreakEffect env cur cur else cur)"
  have "\<not> (timeRemaining ?n = 0 \<and> isActive ?n)"
    using countdownZero_work[OF assms(1)] assms(2) by auto
  then have "\<exists>y. settle env cur ?n = Some y" by (rule settle_quiet_ex)
  then show ?thesis using True settle_zero_ex by blast
qed

lemma settle_total_break1:
  assumes "mode cur = SHORT_BREAK"
    "\<not> (workDuration (settings cur) = 0 \<and> autoStartWork (settings cur))"
  shows "\<exists>y. settle env prev cur = Some y"
proof (cases "tickDeps prev cur \<and> timeRemaining cur = 0 \<and> isActive cur")
  case False
  then show ?thesis using settle_quiet[of prev cur env] by auto
next
  case True
  let ?n = "countdownZero env cur
             (if microBreakDeps prev cur then microBreakEffect env cur cur else cur)"
  have "\<not> (timeRemaining ?n = 0 \<and> isActive ?n)"
    using countdownZero_break[OF assms(1)] assms(2) by auto
  then have "\<exists>y. settle env cur ?n = Some y" by (rule settle_quiet_ex)
  then show ?thesis using True settle_zero_ex by blast
qed

lemma settle_total_work_break:
  assumes "mode cur = WORK \<or> mode cur = SHORT_BREAK" "\<not> loopingSettings (settings cur)"
  shows "\<exists>y. settle env prev cur = Some y"
proof (cases "tickDeps prev cur \<and> timeRemaining cur = 0 \<and> isActive cur")
  case False
  then show ?thesis using settle_quiet[of prev cur env] by auto
next
  case True
  let ?n = "countdownZero env cur
             (if microBreakDeps prev cur then microBreakEffect env cur cur else cur)"
  have st: "settings ?n = settings cur"
    by (simp add: countdownZero_frame microBreakEffect_frame)
  have "\<exists>y. settle env cur ?n = Some y"
  proof (cases "mode cur = WORK")
    case True
    then have n: "mode ?n = SHORT_BREAK" using countdownZero_work by blast
    show ?thesis
    proof (cases "breakDuration (settings cur) = 0 \<and> autoStartBreak (settings cur)")
      case True
      then have "\<not> (workDuration (settings ?n) = 0 \<and> autoStartWork (settings ?n))"
        using assms(2) st by (auto simp: loopingSettings_def)
      then show ?thesis using n by (rule settle_total_break1[rotated])
    next
      case False
      then have "\<not> (timeRemaining ?n = 0 \<and> isActive ?n)"
        using countdownZero_work[OF True] by auto
      then show ?thesis by (rule settle_quiet_ex)
    qed
  next
    case False
    then have b: "mode cur = SHORT_BREAK" using assms(1) by simp
    then have n: "mode ?n = WORK" using countdownZero_break by blast
    show ?thesis
    proof (cases "workDuration (settings cur) = 0 \<and> autoStartWork (settings cur)")
      case True
      then have "\<not> (breakDuration (settings ?n) = 0 \<and> autoStartBreak (settings ?n))"
        using assms(2) st by (auto simp: loopingSettings_def)
      then show ?thesis using n by (rule settle_total_work1[rotated])
    next
      case False
      then have "\<not> (timeRemaining ?n = 0 \<and> isActive ?n)"
        using countdownZero_break[OF b] by auto
      then show ?thesis by (rule settle_quiet_ex)
    qed
  qed
  then show ?thesis using True settle_zero_ex by blast
qed

lemma settle_total:
  assumes "\<not> loopingSettings (settings cur)"
  shows "\<exists>y. settle env prev cur = Some y"
proof (cases "mode cur = MICRO_BREAK")
  case False
  then have "mode cur = WORK \<or> mode cur = SHORT_BREAK" by (cases "mode cur") auto
  then show ?thesis using assms by (rule settle_total_work_break)
next
  case True
  show ?thesis
  proof (cases "tickDeps prev cur \<and> timeRemaining cur = 0 \<and> isActive cur")
    case False
    then show ?thesis using settle_quiet[of prev cur env] by auto
  next
    case z: True
    let ?n = "countdownZero env cur
               (if microBreakDeps prev cur then microBreakEffect env cur cur else cur)"
    have "settings ?n = settings cur" "mode ?n = WORK"
      using countdownZero_micro[OF True]
      by (simp_all add: countdownZero_frame microBreakEffect_frame)
    then have "\<exists>y. settle env cur ?n = Some y"
      using assms by (intro settle_total_work_break) auto
    then show ?thesis using z settle_zero_ex by blast
  qed
qed

lemma step_total:
  assumes "\<not> loopingSettings (settings s)"
    "\<And>st. ev = SaveSettings st \<Longrightarrow> \<not> loopingSettings st"
  shows "\<exists>s'. step env ev s = Some s'"
proof -
  have "\<not> loopingSettings (settings (handle env ev s))"
    using assms handle_settings[of env ev s] by (cases ev) auto
  then show ?thesis unfolding step_def by (rule settle_total)
qed

lemma step_total_tame:
  assumes "\<not> loopingSettings (settings s)" "tameEvent ev"
  shows "\<exists>s'. step env ev s = Some s' \<and> \<not> loopingSettings (settings s')"
proof -
  have h: "\<not> loopingSettings (settings (handle env ev s))"
    using assms handle_settings[of env ev s] by (cases ev) auto
  then obtain s' where s': "settle env s (handle env ev s) = Some s'"
    using settle_total by blast
  then have "settings s' = settings (handle env ev s)"
    using settle_invariants by blast
  then show ?thesis using s' h by (simp add: step_def)
qed

lemma run_total:
  assumes "\<not> loopingSettings (settings s)" "list_all (\<lambda>e. tameEvent (snd e)) evs"
  shows "\<exists>s'. run evs s = Some s'"
  using assms
proof (induction evs arbitrary: s)
  case Nil
  then show ?case by simp
next
  case (Cons e evs)
  obtain env ev where e: "e = (env, ev)" by (cases e)
  from step_total_tame[OF Cons.prems(1), of ev env] Cons.prems(2) e
  obtain s1 where s1: "step env ev s = Some s1" "\<not> loopingSettings (settings s1)"
    by auto
  from Cons.IH[OF s1(2)] Cons.prems(2) obtain s' where "run evs s1 = Some s'" by auto
  then show ?case using s1(1) e by simp
qed

subsection \<open>The markdown round trip\<close>

lemma asc_simps:
  "asc ''## '' = [35, 35, 32]" "asc '' '' = [32]" "asc ''- '' = [45, 32]"
  "asc ''[x]'' = [91, 120, 93]" "asc ''[ ]'' = [91, 32, 93]" "asc ''### '' = [35, 35, 35, 32]"
  "asc ''> '' = [62, 32]" "asc '': '' = [58, 32]" "asc ''- ['' = [45, 32, 91]"
  "asc ''] '' = [93, 32]"
  by (simp_all add: asc_def)

lemma splitDay_Nil: "splitDay b piece [] = [piece]"
  by simp

lemma splitDay_Cons:
  "splitDay b piece (c # s) =
     (case (if b then matchDayHeader (c # s) else None) of
        Some d \<Rightarrow> piece # d # splitDay False [] (drop 16 (c # s))
      | None \<Rightarrow> splitDay (lineTerminator c) (piece @ [c]) s)"
  by simp

declare splitDay.simps [simp del]

lemma splitLines_line:
  "10 \<notin> set l \<Longrightarrow> splitLines (l @ 10 # s) = l # splitLines s"
  by (induction l) auto

lemma splitLines_last: "10 \<notin> set l \<Longrightarrow> splitLines l = [l]"
  by (induction l) auto

lemma splitLines_joinLines:
  "ls \<noteq> [] \<Longrightarrow> \<forall>l \<in> set ls. 10 \<notin> set l \<Longrightarrow> splitLines (joinLines ls) = ls"
  by (induction ls rule: joinLines.induct) (simp_all add: splitLines_line splitLines_last)

lemma singleLine_no_newline: "singleLine l \<Longrightarrow> 10 \<notin> set l"
  by (auto simp: singleLine_def list_all_iff lineTerminator_def)

lemma splitDay_walk:
  "singleLine l \<Longrightarrow> splitDay False piece (l @ rest) = splitDay False (piece @ l) rest"
  by (induction l arbitrary: piece) (simp_all add: singleLine_def splitDay_Cons)

lemma matchDayHeader_newline: "matchDayHeader (10 # s) = None"
  by (simp add: matchDayHeader_def asc_simps)

lemma splitDay_newline: "splitDay b piece (10 # s) = splitDay True (piece @ [10]) s"
  by (simp add: splitDay_Cons matchDayHeader_newline lineTerminator_def)

lemma matchDayHeader_safe:
  assumes "safeLine l" "rest = [] \<or> hd rest = 10"
  shows "matchDayHeader (l @ rest) = None"
proof -
  have "take 3 (l @ rest) \<noteq> [35, 35, 32]"
  proof (cases l)
    case Nil
    then show ?thesis using assms(2) by (cases rest) auto
  next
    case (Cons a l1)
    show ?thesis
    proof (cases l1)
      case Nil
      then show ?thesis using Cons assms(2) by (cases rest) auto
    next
      case (Cons b l2)
      show ?thesis
      proof (cases l2)
        case Nil
        then show ?thesis using Cons \<open>l = a # l1\<close> assms(2) by (cases rest) auto
      next
        case (Cons c l3)
        then show ?thesis using \<open>l1 = b # l2\<close> \<open>l = a # l1\<close> assms(1)
          by (simp add: safeLine_def asc_simps)
      qed
    qed
  qed
  then show ?thesis by (simp add: matchDayHeader_def asc_simps)
qed

lemma splitDay_first:
  assumes "safeLine l" "rest = [] \<or> hd rest = 10"
  shows "splitDay True piece (l @ rest) = splitDay (l = [] \<and> rest \<noteq> []) (piece @ l) rest"
proof (cases l)
  case Nil
  then show ?thesis by (cases rest) (simp_all add: splitDay_Nil splitDay.simps[of False])
next
  case (Cons c l')
  have m: "matchDayHeader (c # l' @ rest) = None"
    using matchDayHeader_safe[OF assms] Cons by simp
  have s: "singleLine l'" "\<not> lineTerminator c"
    using assms(1) Cons by (simp_all add: safeLine_def singleLine_def)
  show ?thesis
    using Cons m s splitDay_walk[OF s(1), of "piece @ [c]" rest]
    by (simp add: splitDay_Cons)
qed

lemma splitDay_lines:
  "ls \<noteq> [] \<Longrightarrow> \<forall>l \<in> set ls. safeLine l \<Longrightarrow>
   splitDay True piece (joinLines ls) = [piece @ joinLines ls]"
proof (induction ls arbitrary: piece rule: joinLines.induct)
  case 1
  then show ?case by simp
next
  case (2 l)
  then show ?case
    using splitDay_first[of l "[]" piece] by (simp add: splitDay_Nil)
next
  case (3 l l2 ls)
  have "splitDay True piece (l @ 10 # joinLines (l2 # ls))
        = splitDay (l = []) (piece @ l) (10 # joinLines (l2 # ls))"
    using splitDay_first[of l "10 # joinLines (l2 # ls)" piece] 3(3) by simp
  also have "\<dots> = splitDay True (piece @ l @ [10]) (joinLines (l2 # ls))"
    by (simp add: splitDay_newline)
  also have "\<dots> = [(piece @ l @ [10]) @ joinLines (l2 # ls)]"
    using 3 by simp
  finally show ?case by simp
qed

lemma matchDayHeader_header:
  assumes "isDate d"
  shows "matchDayHeader (asc ''## '' @ d @ asc '' '' @ RENWU @ 10 # body) = Some d"
    and "drop 16 (asc ''## '' @ d @ asc '' '' @ RENWU @ 10 # body) = 10 # body"
proof -
  have len: "length d = 10" using assms by (simp add: isDate_def)
  show "matchDayHeader (asc ''## '' @ d @ asc '' '' @ RENWU @ 10 # body) = Some d"
    using assms len
    by (simp add: matchDayHeader_def asc_simps RENWU_def lineTerminator_def)
  show "drop 16 (asc ''## '' @ d @ asc '' '' @ RENWU @ 10 # body) = 10 # body"
    using len by (simp add: asc_simps RENWU_def)
qed

lemma splitDay_day:
  assumes "isDate d" "ls \<noteq> []" "\<forall>l \<in> set ls. safeLine l"
  shows "splitDay True [] (joinLines ((asc ''## '' @ d @ asc '' '' @ RENWU) # ls))
         = [[], d, 10 # joinLines ls]"
proof -
  obtain l ls' where ls: "ls = l # ls'" using assms(2) by (cases ls) auto
  let ?h = "asc ''## '' @ d @ asc '' '' @ RENWU @ 10 # joinLines ls"
  have j: "joinLines ((asc ''## '' @ d @ asc '' '' @ RENWU) # ls) = ?h"
    by (simp add: ls)
  have "?h = 35 # tl ?h" by (simp add: asc_simps)
  then obtain s where s: "?h = 35 # s" by blast
  have "splitDay True [] ?h = [] # d # splitDay False [] (10 # joinLines ls)"
    using matchDayHeader_header[OF assms(1), of "joinLines ls"]
    by (subst s, subst splitDay_Cons) (simp add: s[symmetric])
  also have "splitDay False [] (10 # joinLines ls) = splitDay True [10] (joinLines ls)"
    by (simp add: splitDay_newline)
  also have "\<dots> = [10 # joinLines ls]"
    using splitDay_lines[OF assms(2,3), of "[10]"] by simp
  finally show ?thesis by (simp add: j)
qed

declare decimal.simps [simp del]

lemma decimal_digits: "decimal n \<noteq> [] \<and> list_all digit (decimal n)"
proof (induction n rule: decimal.induct)
  case (1 n)
  show ?case
  proof (cases "n < 10")
    case True
    then show ?thesis by (subst (1 2) decimal.simps) (simp add: digit_def)
  next
    case False
    have "n mod 10 < 10" by simp
    then have "digit (48 + n mod 10)" unfolding digit_def by linarith
    then show ?thesis using 1 False by (subst (1 2) decimal.simps) simp
  qed
qed

lemma parseInt_snoc: "parseInt (ds @ [d]) = parseInt ds * 10 + (d - 48)"
  by (simp add: parseInt_def)

lemma parseInt_decimal: "parseInt (decimal n) = n"
proof (induction n rule: decimal.induct)
  case (1 n)
  show ?case
  proof (cases "n < 10")
    case True
    then show ?thesis by (subst decimal.simps) (simp add: parseInt_def)
  next
    case False
    then have "parseInt (decimal n) = parseInt (decimal (n div 10)) * 10 + n mod 10"
      by (subst decimal.simps) (simp add: parseInt_snoc)
    then show ?thesis using 1 False by simp
  qed
qed

lemma parseLine_empty: "parseLine newId st [] = st"
  by (simp add: parseLine_def matchColumn_def matchTask_def matchFocus_def asc_simps
      ZHUANZHU_SHIJIAN_def Let_def)

lemma parseLine_column:
  "st_tasks (parseLine newId st (asc ''### '' @ t)) = st_tasks st"
  "st_focusMinutes (parseLine newId st (asc ''### '' @ t)) = st_focusMinutes st"
  by (simp_all add: parseLine_def matchColumn_def matchTask_def matchFocus_def asc_simps
      ZHUANZHU_SHIJIAN_def Let_def)

lemma parseLine_task:
  assumes "text' t \<noteq> []" "singleLine (text' t)"
  shows "rendered (st_tasks (parseLine newId st (taskLine t)))
           = rendered (st_tasks st) @ [(text' t, completed t)]"
    and "st_focusMinutes (parseLine newId st (taskLine t)) = st_focusMinutes st"
  using assms
  by (simp_all add: parseLine_def matchColumn_def matchTask_def matchFocus_def asc_simps
      ZHUANZHU_SHIJIAN_def Let_def taskLine_def rendered_def singleLine_def)

lemma parseLine_focus:
  "parseLine newId st (asc ''> '' @ ZHUANZHU_SHIJIAN @ asc '': '' @ decimal n
       @ asc '' '' @ FENZHONG) = st\<lparr>st_focusMinutes := n\<rparr>"
proof -
  have d: "decimal n \<noteq> []" "list_all digit (decimal n)" using decimal_digits[of n] by simp_all
  have nd: "\<not> digit 32" by (simp add: digit_def)
  have tw: "takeWhile digit (decimal n @ 32 # FENZHONG) = decimal n"
    using d(2) nd by (simp add: takeWhile_append2 list_all_iff)
  have dw: "dropWhile digit (decimal n @ 32 # FENZHONG) = 32 # FENZHONG"
    using d(2) nd by (simp add: dropWhile_append2 list_all_iff)
  show ?thesis
    using d(1)
    by (simp add: parseLine_def matchColumn_def matchTask_def matchFocus_def asc_simps
        ZHUANZHU_SHIJIAN_def Let_def tw dw parseInt_decimal)
qed

lemma foldl_taskLines:
  assumes "\<forall>t \<in> set ts. text' t \<noteq> [] \<and> singleLine (text' t)"
  shows "rendered (st_tasks (foldl (parseLine newId) st (map taskLine ts)))
           = rendered (st_tasks st) @ map (\<lambda>t. (text' t, completed t)) ts
         \<and> st_focusMinutes (foldl (parseLine newId) st (map taskLine ts)) = st_focusMinutes st"
  using assms
proof (induction ts arbitrary: st)
  case Nil
  then show ?case by simp
next
  case (Cons t ts)
  then show ?case
    using parseLine_task[of t newId st] by simp
qed

lemma foldl_columnLines:
  assumes "\<forall>t \<in> set ts. text' t \<noteq> [] \<and> singleLine (text' t)"
  shows "rendered (st_tasks (foldl (parseLine newId) st (columnLines ts col)))
           = rendered (st_tasks st)
             @ map (\<lambda>t. (text' t, completed t)) (filter (\<lambda>t. columnId t = column_id col) ts)
         \<and> st_focusMinutes (foldl (parseLine newId) st (columnLines ts col)) = st_focusMinutes st"
proof -
  let ?ct = "filter (\<lambda>t. columnId t = column_id col) ts"
  have ct: "\<forall>t \<in> set ?ct. text' t \<noteq> [] \<and> singleLine (text' t)" using assms by simp
  let ?st1 = "parseLine newId st (asc ''### '' @ title col)"
  show ?thesis
    using foldl_taskLines[OF ct, of newId ?st1] parseLine_column[of newId st "title col"]
    by (simp add: columnLines_def Let_def parseLine_empty)
qed

lemma foldl_columns:
  assumes "\<forall>t \<in> set ts. text' t \<noteq> [] \<and> singleLine (text' t)"
  shows "rendered (st_tasks (foldl (parseLine newId) st (concat (map (columnLines ts) cols))))
           = rendered (st_tasks st)
             @ concat (map (\<lambda>col. map (\<lambda>t. (text' t, completed t))
                                     (filter (\<lambda>t. columnId t = column_id col) ts)) cols)
         \<and> st_focusMinutes (foldl (parseLine newId) st (concat (map (columnLines ts) cols)))
             = st_focusMinutes st"
proof (induction cols arbitrary: st)
  case Nil
  then show ?case by simp
next
  case (Cons col cols)
  show ?case
    using foldl_columnLines[OF assms, of newId st col]
      Cons.IH[of "foldl (parseLine newId) st (columnLines ts col)"]
    by simp
qed

lemma safeLine_empty: "safeLine []"
  by (simp add: safeLine_def singleLine_def asc_simps)

lemma safeLine_column: "singleLine t \<Longrightarrow> safeLine (asc ''### '' @ t)"
  by (simp add: safeLine_def singleLine_def asc_simps lineTerminator_def)

lemma safeLine_task: "singleLine (text' t) \<Longrightarrow> safeLine (taskLine t)"
  by (simp add: safeLine_def singleLine_def asc_simps lineTerminator_def taskLine_def Let_def)

lemma digit_singleLine: "list_all digit ds \<Longrightarrow> singleLine ds"
  by (auto simp: singleLine_def list_all_iff digit_def lineTerminator_def)

lemma safeLine_focus:
  "safeLine (asc ''> '' @ ZHUANZHU_SHIJIAN @ asc '': '' @ decimal n @ asc '' '' @ FENZHONG)"
  using digit_singleLine[of "decimal n"] decimal_digits[of n]
  by (simp add: safeLine_def singleLine_def asc_simps lineTerminator_def ZHUANZHU_SHIJIAN_def
      FENZHONG_def)

lemma safeLine_columnLines:
  assumes "\<forall>t \<in> set ts. singleLine (text' t)" "singleLine (title col)"
  shows "\<forall>l \<in> set (columnLines ts col). safeLine l"
  using assms
  by (auto simp: columnLines_def Let_def safeLine_empty safeLine_column safeLine_task)

lemma decimal_length: "0 < k \<Longrightarrow> n < 10 ^ k \<Longrightarrow> length (decimal n) \<le> k"
proof (induction n arbitrary: k rule: decimal.induct)
  case (1 n)
  show ?case
  proof (cases "n < 10")
    case True
    then show ?thesis using 1(2) by (subst decimal.simps) simp
  next
    case False
    obtain j where k: "k = Suc j" using 1(2) by (cases k) auto
    have "j \<noteq> 0" using False 1(3) k by (cases j) auto
    moreover have "n div 10 < 10 ^ j" using 1(3) k by (simp add: less_mult_imp_div_less)
    ultimately have "length (decimal (n div 10)) \<le> j" using 1(1)[OF False, of j] by simp
    then show ?thesis using False k by (subst decimal.simps) simp
  qed
qed

lemma numberToString_whole: "n < 10 ^ 21 \<Longrightarrow> numberToString (Whole n) = decimal n"
  using decimal_length[of 21 n] by (simp add: numberToString_def Let_def)

lemma generateDayLines_body:
  "n < 10 ^ 21 \<Longrightarrow>
   generateDayLines d ts cols (Whole n)
     = (asc ''## '' @ d @ asc '' '' @ RENWU) # bodyLines ts cols n"
  by (simp add: generateDayLines_def bodyLines_def positive_def numberToString_whole)

lemma grouped_mset:
  assumes "distinct (map column_id cols)"
  shows "mset (concat (map (\<lambda>col. map f (filter (\<lambda>t. columnId t = column_id col) ts)) cols))
         = mset (map f (filter (\<lambda>t. columnId t \<in> column_id ` set cols) ts))"
  using assms
proof (induction cols)
  case Nil
  then show ?case by simp
next
  case (Cons col cols)
  have "mset (filter (\<lambda>t. columnId t = column_id col) ts)
          + mset (filter (\<lambda>t. columnId t \<in> column_id ` set cols) ts)
        = mset (filter (\<lambda>t. columnId t \<in> column_id ` set (col # cols)) ts)"
    using Cons.prems by (induction ts) auto
  then have "image_mset f (mset (filter (\<lambda>t. columnId t = column_id col) ts))
          + image_mset f (mset (filter (\<lambda>t. columnId t \<in> column_id ` set cols) ts))
        = image_mset f (mset (filter (\<lambda>t. columnId t \<in> column_id ` set (col # cols)) ts))"
    by (metis image_mset_union)
  then show ?case using Cons by simp
qed

lemma safeLine_bodyLines:
  assumes "\<forall>t \<in> set ts. singleLine (text' t)" "\<forall>c \<in> set cols. singleLine (title c)"
  shows "\<forall>l \<in> set (bodyLines ts cols n). safeLine l"
  using assms safeLine_columnLines[of ts]
  by (auto simp: bodyLines_def safeLine_empty safeLine_focus)

lemma foldl_bodyLines:
  assumes "\<forall>t \<in> set ts. text' t \<noteq> [] \<and> singleLine (text' t)"
  shows "rendered (st_tasks (foldl (parseLine newId) st (bodyLines ts cols n)))
           = rendered (st_tasks st)
             @ concat (map (\<lambda>col. map (\<lambda>t. (text' t, completed t))
                                     (filter (\<lambda>t. columnId t = column_id col) ts)) cols)"
    and "st_focusMinutes (foldl (parseLine newId) st (bodyLines ts cols n))
           = (if n > 0 then n else st_focusMinutes st)"
  using foldl_columns[OF assms, of newId st cols]
  by (simp_all add: bodyLines_def parseLine_empty parseLine_focus)

text \<open>
  C10, as amended. For a date of the form YYYY-MM-DD, columns with distinct ids whose
  titles hold no line terminator, tasks whose texts are non-empty and hold no line
  terminator and whose \<open>columnId\<close> each is the id of a listed column, and a whole number
  \<open>focusMinutes\<close> from 0 to below \<open>10^21\<close>: parsing the generated markdown gives exactly
  one snapshot; its date is the input date; its tasks are, column after column, the
  tasks of that column with their text and completed flag, which are the input tasks
  rearranged; and its \<open>focusMinutes\<close> is the input (0 for 0).
\<close>

theorem markdown_roundtrip:
  assumes "isDate d"
    and "\<forall>t \<in> set ts. text' t \<noteq> [] \<and> singleLine (text' t)
                      \<and> columnId t \<in> column_id ` set cols"
    and "\<forall>c \<in> set cols. singleLine (title c)"
    and "distinct (map column_id cols)"
    and "n < 10 ^ 21"
  shows "\<exists>snap. parseMarkdownToSnapshots newId (generateDayMarkdown d ts cols (Whole n)) = [snap]
           \<and> snapshot_date snap = d
           \<and> rendered (tasks snap)
               = concat (map (\<lambda>col. map (\<lambda>t. (text' t, completed t))
                                       (filter (\<lambda>t. columnId t = column_id col) ts)) cols)
           \<and> mset (rendered (tasks snap)) = mset (map (\<lambda>t. (text' t, completed t)) ts)
           \<and> focusMinutes snap = n"
proof -
  let ?body = "bodyLines ts cols n"
  have tx: "\<forall>t \<in> set ts. text' t \<noteq> [] \<and> singleLine (text' t)" using assms(2) by simp
  have ne: "?body \<noteq> []" by (simp add: bodyLines_def)
  have safe: "\<forall>l \<in> set ?body. safeLine l"
    using tx assms(3) by (intro safeLine_bodyLines) auto
  then have nl: "\<forall>l \<in> set ?body. 10 \<notin> set l"
    by (auto simp: safeLine_def dest: singleLine_no_newline)
  have sp: "splitDay True [] (generateDayMarkdown d ts cols (Whole n))
              = [[], d, 10 # joinLines ?body]"
    using splitDay_day[OF assms(1) ne safe]
    by (simp add: generateDayMarkdown_def generateDayLines_body[OF assms(5)])
  note lines = splitLines_joinLines[OF ne nl]
  let ?st0 = "\<lparr>st_tasks = [], st_focusMinutes = 0, st_columnTitle = WEIFENLEI\<rparr>"
  let ?snap = "parseSection newId d (10 # joinLines ?body)"
  let ?grouped = "concat (map (\<lambda>col. map (\<lambda>t. (text' t, completed t))
                                       (filter (\<lambda>t. columnId t = column_id col) ts)) cols)"
  have p: "parseMarkdownToSnapshots newId (generateDayMarkdown d ts cols (Whole n)) = [?snap]"
    by (simp add: parseMarkdownToSnapshots_def sp)
  have dt: "snapshot_date ?snap = d" by (simp add: parseSection_def Let_def)
  have tk: "rendered (tasks ?snap) = ?grouped"
    using foldl_bodyLines(1)[OF tx, of newId ?st0 cols n]
    by (simp add: parseSection_def Let_def lines parseLine_empty rendered_def)
  have all: "filter (\<lambda>t. columnId t \<in> column_id ` set cols) ts = ts"
    using assms(2) by (simp add: filter_id_conv)
  have ms: "mset ?grouped = mset (map (\<lambda>t. (text' t, completed t)) ts)"
    using grouped_mset[OF assms(4), of "\<lambda>t. (text' t, completed t)" ts] by (simp only: all)
  have fm: "focusMinutes ?snap = n"
    using foldl_bodyLines(2)[OF tx, of newId ?st0 cols n]
    by (simp add: parseSection_def Let_def lines parseLine_empty)
  show ?thesis using p dt tk ms fm by (metis (no_types, lifting))
qed

theorem markdown_roundtrip_witness:
  "isDate exampleDate \<and> text' exampleTask \<noteq> [] \<and> singleLine (text' exampleTask)
   \<and> columnId exampleTask \<in> column_id ` set [exampleColumn]
   \<and> singleLine (title exampleColumn) \<and> distinct (map column_id [exampleColumn])
   \<and> (25::nat) < 10 ^ 21
   \<and> (\<exists>snap. parseMarkdownToSnapshots (\<lambda>k. [])
                (generateDayMarkdown exampleDate [exampleTask] [exampleColumn] (Whole 25))
              = [snap]
          \<and> snapshot_date snap = exampleDate
          \<and> rendered (tasks snap) = [(asc ''t'', False)]
          \<and> focusMinutes snap = 25)"
  using markdown_roundtrip[of exampleDate "[exampleTask]" "[exampleColumn]" 25 "\<lambda>k. []"]
  by (simp add: exampleDate_def exampleTask_def exampleColumn_def isDate_def digit_def asc_def
      singleLine_def lineTerminator_def)

text \<open>
  Four inputs of the claim as it was stated, on which the round trip fails. A column
  whose title has a second line that reads like a task: the parser finds a task that
  was never there. Two columns with the same id: the one task is written under both and
  comes back twice. \<open>focusMinutes = 10^21\<close>: the number is printed as \<open>1e+21\<close>, the line
  is not recognised and 0 comes back. \<open>focusMinutes = 2.5\<close>: printed as \<open>2.5\<close>, and 0
  comes back.
\<close>

theorem markdown_roundtrip_counterexample:
  "isDate exampleDate \<and> text' exampleTask \<noteq> [] \<and> singleLine (text' exampleTask)
   \<and> columnId exampleTask = column_id twoLineColumn
   \<and> columnId exampleTask = column_id exampleColumn
   \<and> columnId exampleTask = column_id otherColumn
   \<and> map (\<lambda>snap. rendered (tasks snap))
        (parseMarkdownToSnapshots (\<lambda>k. [])
           (generateDayMarkdown exampleDate [exampleTask] [twoLineColumn] (Whole 0)))
       = [[(asc ''ghost'', True), (asc ''t'', False)]]
   \<and> [(asc ''ghost'', True), (asc ''t'', False)]
       \<noteq> map (\<lambda>t. (text' t, completed t)) [exampleTask]
   \<and> map (\<lambda>snap. rendered (tasks snap))
        (parseMarkdownToSnapshots (\<lambda>k. [])
           (generateDayMarkdown exampleDate [exampleTask] [exampleColumn, otherColumn]
              (Whole 0)))
       = [[(asc ''t'', False), (asc ''t'', False)]]
   \<and> [(asc ''t'', False), (asc ''t'', False)]
       \<noteq> map (\<lambda>t. (text' t, completed t)) [exampleTask]
   \<and> numberToString (Whole (10 ^ 21)) = asc ''1e+21''
   \<and> map focusMinutes
        (parseMarkdownToSnapshots (\<lambda>k. [])
           (generateDayMarkdown exampleDate [exampleTask] [exampleColumn] (Whole (10 ^ 21))))
       = [0]
   \<and> (0::nat) \<noteq> 10 ^ 21
   \<and> numberToString (Fraction 2 [5]) = asc ''2.5''
   \<and> map focusMinutes
        (parseMarkdownToSnapshots (\<lambda>k. [])
           (generateDayMarkdown exampleDate [exampleTask] [exampleColumn] (Fraction 2 [5])))
       = [0]"
proof -
  note ev = asc_def RENWU_def parseMarkdownToSnapshots_def splitDay_Cons splitDay_Nil
    matchDayHeader_def isDate_def digit_def lineTerminator_def parseSection_def
    parseLine_def matchColumn_def matchTask_def matchFocus_def ZHUANZHU_SHIJIAN_def
    FENZHONG_def rendered_def Let_def exampleDate_def exampleTask_def twoLineColumn_def
    exampleColumn_def otherColumn_def singleLine_def parseInt_def
  note gen = generateDayMarkdown_def generateDayLines_def columnLines_def taskLine_def
    positive_def
  have big: "numberToString (Whole (10 ^ 21)) = asc ''1e+21''"
    by (simp add: numberToString_def exponential_def stripZeros_def decimal.simps asc_def)
  have frac: "numberToString (Fraction 2 [5]) = asc ''2.5''"
    by (simp add: numberToString_def decimal.simps asc_def)
  have g1: "generateDayMarkdown exampleDate [exampleTask] [twoLineColumn] (Whole 0)
      = asc ''## 2024-05-01 '' @ RENWU @ [10, 10] @ asc ''### A'' @ [10] @ asc ''- [x] ghost''
        @ [10] @ asc ''- [ ] t'' @ [10]"
    by (simp add: gen exampleDate_def exampleTask_def twoLineColumn_def asc_def)
  have g2: "generateDayMarkdown exampleDate [exampleTask] [exampleColumn, otherColumn] (Whole 0)
      = asc ''## 2024-05-01 '' @ RENWU @ [10, 10] @ asc ''### A'' @ [10] @ asc ''- [ ] t''
        @ [10, 10] @ asc ''### B'' @ [10] @ asc ''- [ ] t'' @ [10]"
    by (simp add: gen exampleDate_def exampleTask_def exampleColumn_def otherColumn_def asc_def)
  have g3: "generateDayMarkdown exampleDate [exampleTask] [exampleColumn] (Whole (10 ^ 21))
      = asc ''## 2024-05-01 '' @ RENWU @ [10, 10] @ asc ''### A'' @ [10] @ asc ''- [ ] t''
        @ [10, 10] @ asc ''> '' @ ZHUANZHU_SHIJIAN @ asc '': 1e+21 '' @ FENZHONG @ [10]"
    using big by (simp add: gen exampleDate_def exampleTask_def exampleColumn_def asc_def)
  have g4: "generateDayMarkdown exampleDate [exampleTask] [exampleColumn] (Fraction 2 [5])
      = asc ''## 2024-05-01 '' @ RENWU @ [10, 10] @ asc ''### A'' @ [10] @ asc ''- [ ] t''
        @ [10, 10] @ asc ''> '' @ ZHUANZHU_SHIJIAN @ asc '': 2.5 '' @ FENZHONG @ [10]"
    by (simp add: gen frac exampleDate_def exampleTask_def exampleColumn_def asc_def)
  have c1: "map (\<lambda>snap. rendered (tasks snap))
        (parseMarkdownToSnapshots (\<lambda>k. [])
           (generateDayMarkdown exampleDate [exampleTask] [twoLineColumn] (Whole 0)))
       = [[(asc ''ghost'', True), (asc ''t'', False)]]"
    unfolding g1 by (simp add: ev)
  have c2: "map (\<lambda>snap. rendered (tasks snap))
        (parseMarkdownToSnapshots (\<lambda>k. [])
           (generateDayMarkdown exampleDate [exampleTask] [exampleColumn, otherColumn]
              (Whole 0)))
       = [[(asc ''t'', False), (asc ''t'', False)]]"
    unfolding g2 by (simp add: ev)
  have c3: "map focusMinutes
        (parseMarkdownToSnapshots (\<lambda>k. [])
           (generateDayMarkdown exampleDate [exampleTask] [exampleColumn] (Whole (10 ^ 21))))
       = [0]"
    unfolding g3 by (simp add: ev)
  have c4: "map focusMinutes
        (parseMarkdownToSnapshots (\<lambda>k. [])
           (generateDayMarkdown exampleDate [exampleTask] [exampleColumn] (Fraction 2 [5])))
       = [0]"
    unfolding g4 by (simp add: ev)
  show ?thesis
    by (intro conjI c1 c2 c3 c4 big frac) (simp_all add: ev)
qed

end
